theory Spec2Isabelle
  imports Main "HOL-Library.Word"
begin

section \<open>Platform and results\<close>

text \<open>
  The repository holds three versions of the library. The definitions below follow the
  one in which a \<open>string\<close> is a \<open>char *\<close> behind its \<open>struct meta\<close> and the work is done by
  the static functions \<open>sub_string\<close>, \<open>copy_string\<close>, \<open>append_string\<close> and
  \<open>prepend_string\<close>. \<open>src/libstrings.c\<close> has the same \<open>set_string_capacity\<close> and
  \<open>set_string_length\<close> and another \<open>string_empty\<close>; the version on \<open>struct string\<close>
  allocates the characters apart from the meta data. Where a claim depends on the
  difference, the other version is defined under a name of its own.

  The library is modelled as compiled for an LP64 platform: \<open>size_t\<close> has 64 bits,
  \<open>unsigned int\<close> has 32 bits, \<open>int\<close> has 32 bits and \<open>sizeof(struct meta)\<close> is 16.
  Arithmetic on \<open>size_t\<close> wraps around, as C's unsigned arithmetic does.
\<close>

type_synonym size_t = "64 word"
type_synonym uint = "32 word"
type_synonym byte = "8 word"

definition sizeof_meta :: size_t where
  "sizeof_meta = 16"

definition INT_MAX :: nat where
  "INT_MAX = 2147483647"

text \<open>The values of \<open>errno.h\<close> on Linux.\<close>

definition ENOMEM :: int where
  "ENOMEM = 12"

definition EINVAL :: int where
  "EINVAL = 22"

definition ERANGE :: int where
  "ERANGE = 34"

text \<open>
  A call either returns (\<open>Done\<close>) or runs into what the C standard leaves undefined: a load
  or a store outside an allocated object.
\<close>

datatype 'a outcome = Done 'a | Undefined

definition and_then :: "'a outcome \<Rightarrow> ('a \<Rightarrow> 'b outcome) \<Rightarrow> 'b outcome" where
  "and_then m f = (case m of Undefined \<Rightarrow> Undefined | Done x \<Rightarrow> f x)"

section \<open>The string object\<close>

text \<open>
  \<open>struct meta\<close> holds \<open>len\<close> and \<open>capacity\<close>; the characters follow it in the same
  allocation. \<open>chars\<close> is the character storage as allocated: its length is the number
  of bytes of the allocation behind the meta data, whatever the field \<open>capacity\<close> says.
\<close>

record meta =
  len :: size_t
  capacity :: size_t

record string_block = meta +
  chars :: "byte list"

text \<open>
  The data invariant of the specification, together with the two facts that hold of every
  allocation the library makes: the storage has \<open>capacity\<close> bytes, and the size of the
  whole block, \<open>sizeof(struct meta) + capacity\<close>, is a \<open>size_t\<close>.
\<close>

definition valid :: "string_block \<Rightarrow> bool" where
  "valid s \<longleftrightarrow>
     length (chars s) = unat (capacity s) \<and>
     unat (len s) + 1 \<le> unat (capacity s) \<and>
     chars s ! unat (len s) = 0 \<and>
     16 + unat (capacity s) < 2 ^ 64"

text \<open>The logical content: the bytes in \<open>[0, len)\<close>.\<close>

definition content :: "string_block \<Rightarrow> byte list" where
  "content s = take (unat (len s)) (chars s)"

text \<open>The part of \<open>valid\<close> that concerns the allocation alone.\<close>

definition sized :: "string_block \<Rightarrow> bool" where
  "sized s \<longleftrightarrow> length (chars s) = unat (capacity s) \<and> 16 + unat (capacity s) < 2 ^ 64"

section \<open>The C library\<close>

text \<open>
  The allocator is the environment: \<open>grants n\<close> tells whether a request for \<open>n\<close> bytes
  succeeds, \<open>junk i\<close> is the indeterminate byte found at offset \<open>i\<close> of fresh storage.
\<close>

record allocator =
  grants :: "nat \<Rightarrow> bool"
  junk :: "nat \<Rightarrow> byte"

text \<open>\<open>realloc\<close> keeps the bytes up to the smaller of the two sizes.\<close>

definition realloc_chars :: "allocator \<Rightarrow> byte list \<Rightarrow> nat \<Rightarrow> byte list" where
  "realloc_chars A cs n = take n cs @ map (junk A) [length cs..<n]"

text \<open>\<open>str[i] = c\<close>\<close>

definition write_char :: "byte list \<Rightarrow> nat \<Rightarrow> byte \<Rightarrow> byte list outcome" where
  "write_char cs i c = (if i < length cs then Done (cs[i := c]) else Undefined)"

text \<open>
  What \<open>strncpy\<close> writes when asked for \<open>n\<close> bytes from the array \<open>src\<close>: the bytes before
  the first NUL among the first \<open>n\<close>, then NUL bytes up to \<open>n\<close>. It reads past the end of
  \<open>src\<close> when \<open>src\<close> is shorter than \<open>n\<close> and has no NUL.
\<close>

definition strncpy_image :: "byte list \<Rightarrow> nat \<Rightarrow> byte list outcome" where
  "strncpy_image src n =
     (let p = takeWhile (\<lambda>c. c \<noteq> 0) (take n src)
      in if length p < n \<and> length p = length src then Undefined
         else Done (p @ replicate (n - length p) 0))"

text \<open>\<open>strncpy(dst + off, src + start, n)\<close>\<close>

definition strncpy :: "byte list \<Rightarrow> nat \<Rightarrow> byte list \<Rightarrow> nat \<Rightarrow> nat \<Rightarrow> byte list outcome" where
  "strncpy dst off src start n =
     (if length src < start then Undefined
      else and_then (strncpy_image (drop start src) n) (\<lambda>img.
        if length dst < off + n then Undefined
        else Done (take off dst @ img @ drop (off + n) dst)))"

text \<open>\<open>memmove(buf + d, buf + s, n)\<close>: the source range is read before anything is written.\<close>

definition memmove :: "byte list \<Rightarrow> nat \<Rightarrow> nat \<Rightarrow> nat \<Rightarrow> byte list outcome" where
  "memmove buf d s n =
     (if length buf < s + n \<or> length buf < d + n then Undefined
      else Done (take d buf @ take n (drop s buf) @ drop (d + n) buf))"

section \<open>Static functions\<close>

text \<open>
  The static functions work on the block that \<open>*str\<close> points to and return their \<open>int\<close>
  together with that block as the call leaves it: \<open>None\<close> when the block has been freed
  and \<open>*str\<close> is left dangling. \<open>deref\<close> is an access through \<open>*str\<close>.
\<close>

definition deref :: "string_block option \<Rightarrow> (string_block \<Rightarrow> 'a outcome) \<Rightarrow> 'a outcome" where
  "deref r f = (case r of None \<Rightarrow> Undefined | Some s \<Rightarrow> f s)"

text \<open>
  \<open>set_string_capacity\<close>: \<open>realloc(meta, sizeof(*meta) + capacity)\<close>, the sum taken in
  \<open>size_t\<close>. When the sum is 0, \<open>realloc\<close> frees the block and returns \<open>NULL\<close> (as the GNU C
  library does for a size of 0), and the function returns \<open>-ENOMEM\<close>. When \<open>realloc\<close>
  fails otherwise, the function returns before any store, and the block is as it was.
  When fewer than \<open>sizeof(*meta)\<close> bytes are granted, the store to \<open>meta->capacity\<close> is
  outside the block.
\<close>

definition set_string_capacity ::
    "allocator \<Rightarrow> string_block \<Rightarrow> size_t \<Rightarrow> (int \<times> string_block option) outcome" where
  "set_string_capacity A s cap =
     (let bytes = unat (sizeof_meta + cap)
      in if bytes = 0 then Done (- ENOMEM, None)
         else if \<not> grants A bytes then Done (- ENOMEM, Some s)
         else if bytes < unat sizeof_meta then Undefined
         else Done (0, Some (s\<lparr>capacity := cap,
                 chars := realloc_chars A (chars s) (bytes - unat sizeof_meta)\<rparr>)))"

definition set_string_length ::
    "allocator \<Rightarrow> string_block \<Rightarrow> size_t \<Rightarrow> (int \<times> string_block option) outcome" where
  "set_string_length A s n =
     (if capacity s < n + 1
      then and_then (set_string_capacity A s (n * 2 + 1)) (\<lambda>(res, r).
             if res < 0 then Done (res, r)
             else deref r (\<lambda>s'. Done (0, Some (s'\<lparr>len := n\<rparr>))))
      else Done (0, Some (s\<lparr>len := n\<rparr>)))"

definition copy_string ::
    "allocator \<Rightarrow> string_block \<Rightarrow> byte list \<Rightarrow> size_t
      \<Rightarrow> (int \<times> string_block option) outcome" where
  "copy_string A dest src n =
     and_then (set_string_length A dest n) (\<lambda>(res, r).
       if res < 0 then Done (res, r)
       else deref r (\<lambda>d.
            and_then (strncpy (chars d) 0 src 0 (unat n)) (\<lambda>cs.
            and_then (write_char cs (unat n) 0) (\<lambda>cs'.
            Done (0, Some (d\<lparr>chars := cs'\<rparr>))))))"

definition append_string ::
    "allocator \<Rightarrow> string_block \<Rightarrow> byte list \<Rightarrow> size_t
      \<Rightarrow> (int \<times> string_block option) outcome" where
  "append_string A dest src n =
     (let cur_len = len dest
      in and_then (set_string_length A dest (cur_len + n)) (\<lambda>(res, r).
           if res < 0 then Done (res, r)
           else deref r (\<lambda>d.
                and_then (strncpy (chars d) (unat cur_len) src 0 (unat n)) (\<lambda>cs.
                and_then (write_char cs (unat (cur_len + n)) 0) (\<lambda>cs'.
                Done (0, Some (d\<lparr>chars := cs'\<rparr>)))))))"

definition prepend_string ::
    "allocator \<Rightarrow> string_block \<Rightarrow> byte list \<Rightarrow> size_t
      \<Rightarrow> (int \<times> string_block option) outcome" where
  "prepend_string A dest src n =
     (let cur_len = len dest
      in and_then (set_string_length A dest (cur_len + n)) (\<lambda>(res, r).
           if res < 0 then Done (res, r)
           else deref r (\<lambda>d.
                and_then (memmove (chars d) (unat n) 0 (unat cur_len)) (\<lambda>cs0.
                and_then (strncpy cs0 0 src 0 (unat n)) (\<lambda>cs.
                and_then (write_char cs (unat (cur_len + n)) 0) (\<lambda>cs'.
                Done (0, Some (d\<lparr>chars := cs'\<rparr>))))))))"

section \<open>Modification functions\<close>

text \<open>
  A mutating function receives the object its argument points to, \<open>None\<close> when the
  argument (or, for a \<open>string *\<close>, what it points to) is \<open>NULL\<close>, and returns its \<open>int\<close>
  together with the object that the string points to as the call leaves it: \<open>None\<close> when
  there is none, the pointer being \<open>NULL\<close> or the block freed. A source array is \<open>None\<close>
  when the pointer is \<open>NULL\<close>; it is storage of its own, apart from the destination.
\<close>

definition string_clear :: "string_block option \<Rightarrow> (int \<times> string_block option) outcome" where
  "string_clear str =
     (case str of
        None \<Rightarrow> Done (- EINVAL, None)
      | Some s \<Rightarrow>
          and_then (write_char (chars s) 0 0) (\<lambda>cs. Done (0, Some (s\<lparr>len := 0, chars := cs\<rparr>))))"

definition string_copy_v ::
    "allocator \<Rightarrow> string_block option \<Rightarrow> byte list option \<Rightarrow> size_t
      \<Rightarrow> (int \<times> string_block option) outcome" where
  "string_copy_v A dest src n =
     (case (dest, src) of
        (Some d, Some cs) \<Rightarrow> copy_string A d cs n
      | _ \<Rightarrow> Done (- EINVAL, dest))"

definition string_append_v ::
    "allocator \<Rightarrow> string_block option \<Rightarrow> byte list option \<Rightarrow> size_t
      \<Rightarrow> (int \<times> string_block option) outcome" where
  "string_append_v A dest src n =
     (case (dest, src) of
        (Some d, Some cs) \<Rightarrow> append_string A d cs n
      | _ \<Rightarrow> Done (- EINVAL, dest))"

definition string_prepend_v ::
    "allocator \<Rightarrow> string_block option \<Rightarrow> byte list option \<Rightarrow> size_t
      \<Rightarrow> (int \<times> string_block option) outcome" where
  "string_prepend_v A dest src n =
     (case (dest, src) of
        (Some d, Some cs) \<Rightarrow> prepend_string A d cs n
      | _ \<Rightarrow> Done (- EINVAL, dest))"

text \<open>
  \<open>string_cut\<close>: \<open>start\<close> is an \<open>unsigned int\<close>, converted to \<open>size_t\<close> for the sum
  \<open>start + len\<close>, which is taken in \<open>size_t\<close>.
\<close>

definition string_cut ::
    "string_block option \<Rightarrow> uint \<Rightarrow> size_t \<Rightarrow> (int \<times> string_block option) outcome" where
  "string_cut str start n =
     (case str of
        None \<Rightarrow> Done (- EINVAL, None)
      | Some s \<Rightarrow>
          if len s < ucast start + n then Done (- ERANGE, Some s)
          else and_then (memmove (chars s) 0 (unat start) (unat n)) (\<lambda>cs.
               and_then (write_char cs (unat n) 0) (\<lambda>cs'.
               Done (0, Some (s\<lparr>len := n, chars := cs'\<rparr>)))))"

text \<open>
  \<open>vsnprintf(buf, size, format, args)\<close>. What the format and its arguments expand to is
  given as \<open>out\<close>, \<open>None\<close> when the conversion fails. The function writes at most
  \<open>size - 1\<close> bytes of it and a NUL, and returns the length of the whole expansion; it
  returns a negative value when the conversion fails or the length is above \<open>INT_MAX\<close>
  (the buffer is then taken to be as it was).
\<close>

definition vsnprintf ::
    "byte list \<Rightarrow> size_t \<Rightarrow> byte list option \<Rightarrow> (int \<times> byte list) outcome" where
  "vsnprintf buf sz out =
     (case out of
        None \<Rightarrow> Done (- 1, buf)
      | Some bs \<Rightarrow>
          if INT_MAX < length bs then Done (- 1, buf)
          else if sz = 0 then Done (int (length bs), buf)
          else let k = min (length bs) (unat sz - 1)
               in if length buf \<le> k then Undefined
                  else Done (int (length bs), take k bs @ [0] @ drop (k + 1) buf))"

text \<open>
  \<open>string_printf\<close>: in \<open>(size_t)res < meta->capacity ? res : meta->capacity - 1\<close> the
  \<open>int\<close> is converted to \<open>size_t\<close>. The format is taken to be a format string.
\<close>

definition string_printf ::
    "string_block option \<Rightarrow> byte list option \<Rightarrow> (int \<times> string_block option) outcome" where
  "string_printf str out =
     (case str of
        None \<Rightarrow> Done (- EINVAL, None)
      | Some s \<Rightarrow>
          and_then (vsnprintf (chars s) (capacity s) out) (\<lambda>(res, cs).
            Done (res, Some (s\<lparr>len := (if word_of_int res < capacity s then word_of_int res
                                         else capacity s - 1),
                                chars := cs\<rparr>))))"

section \<open>Utility functions\<close>

definition string_len :: "string_block option \<Rightarrow> int" where
  "string_len str = (case str of None \<Rightarrow> - EINVAL | Some s \<Rightarrow> sint (len s))"

definition string_capacity :: "string_block option \<Rightarrow> int" where
  "string_capacity str = (case str of None \<Rightarrow> - EINVAL | Some s \<Rightarrow> sint (capacity s))"

definition string_reserve ::
    "allocator \<Rightarrow> string_block option \<Rightarrow> size_t \<Rightarrow> (int \<times> string_block option) outcome" where
  "string_reserve A str sz =
     (case str of
        None \<Rightarrow> Done (- EINVAL, None)
      | Some s \<Rightarrow>
          if sz \<le> capacity s then Done (0, Some s)
          else set_string_capacity A s sz)"

definition string_fit ::
    "allocator \<Rightarrow> string_block option \<Rightarrow> (int \<times> string_block option) outcome" where
  "string_fit A str =
     (case str of
        None \<Rightarrow> Done (- EINVAL, None)
      | Some s \<Rightarrow> set_string_capacity A s (len s + 1))"

section \<open>Creation and destruction\<close>

text \<open>
  The heap is the list of the blocks allocated so far: the address of a block is its
  position, and a cell is \<open>None\<close> once the block is freed. A new block is placed at an
  address that was never handed out. A \<open>string\<close> is an address, or \<open>None\<close> for \<open>NULL\<close>.
\<close>

type_synonym addr = nat
type_synonym heap = "string_block option list"

definition cell :: "heap \<Rightarrow> addr \<Rightarrow> string_block option" where
  "cell h p = (if p < length h then h ! p else None)"

definition place :: "heap \<Rightarrow> string_block \<Rightarrow> heap \<times> addr option" where
  "place h b = (h @ [Some b], Some (length h))"

definition malloc_chars :: "allocator \<Rightarrow> nat \<Rightarrow> byte list" where
  "malloc_chars A n = map (junk A) [0..<n]"

text \<open>
  \<open>string_empty\<close> as in the version of the source that has the static functions
  \<open>sub_string\<close>, \<open>copy_string\<close>, \<open>append_string\<close> and \<open>prepend_string\<close> on \<open>char *\<close>
  strings, which the definitions of this theory follow.
\<close>

definition string_empty :: "allocator \<Rightarrow> heap \<Rightarrow> heap \<times> addr option" where
  "string_empty A h =
     (if \<not> grants A (unat (sizeof_meta + 1)) then (h, None)
      else place h \<lparr>len = 0, capacity = 1, chars = (malloc_chars A 1)[0 := 0]\<rparr>)"

text \<open>\<open>string_empty\<close> as in \<open>src/libstrings.c\<close>, which records a capacity of 0.\<close>

definition string_empty_libstrings_c :: "allocator \<Rightarrow> heap \<Rightarrow> heap \<times> addr option" where
  "string_empty_libstrings_c A h =
     (if \<not> grants A (unat (sizeof_meta + 1)) then (h, None)
      else place h \<lparr>len = 0, capacity = 0, chars = (malloc_chars A 1)[0 := 0]\<rparr>)"

definition sub_string ::
    "allocator \<Rightarrow> heap \<Rightarrow> byte list \<Rightarrow> uint \<Rightarrow> size_t \<Rightarrow> (heap \<times> addr option) outcome" where
  "sub_string A h src start n =
     (let bytes = unat (sizeof_meta + n + 1)
      in if \<not> grants A bytes then Done (h, None)
         else if bytes < unat sizeof_meta then Undefined
         else and_then (strncpy (malloc_chars A (bytes - unat sizeof_meta)) 0
                          src (unat start) (unat n)) (\<lambda>cs.
              and_then (write_char cs (unat n) 0) (\<lambda>cs'.
              Done (place h \<lparr>len = n, capacity = n + 1, chars = cs'\<rparr>))))"

text \<open>\<open>string_dup\<close> reads the characters of the string it is given; a pointer to a
  block that is not allocated is not a string.\<close>

definition string_dup :: "allocator \<Rightarrow> heap \<Rightarrow> addr option \<Rightarrow> (heap \<times> addr option) outcome" where
  "string_dup A h src =
     (case src of
        None \<Rightarrow> Done (h, None)
      | Some p \<Rightarrow>
          (case cell h p of
             None \<Rightarrow> Undefined
           | Some b \<Rightarrow> sub_string A h (chars b) 0 (len b)))"

definition string_dup_v ::
    "allocator \<Rightarrow> heap \<Rightarrow> byte list option \<Rightarrow> size_t \<Rightarrow> (heap \<times> addr option) outcome" where
  "string_dup_v A h src n =
     (case src of None \<Rightarrow> Done (h, None) | Some cs \<Rightarrow> sub_string A h cs 0 n)"

definition string_sub_v ::
    "allocator \<Rightarrow> heap \<Rightarrow> byte list option \<Rightarrow> uint \<Rightarrow> size_t
      \<Rightarrow> (heap \<times> addr option) outcome" where
  "string_sub_v A h src start n =
     (case src of None \<Rightarrow> Done (h, None) | Some cs \<Rightarrow> sub_string A h cs start n)"

definition string_destroy :: "heap \<Rightarrow> addr option \<Rightarrow> heap outcome" where
  "string_destroy h str =
     (case str of
        None \<Rightarrow> Done h
      | Some p \<Rightarrow> (case cell h p of None \<Rightarrow> Undefined | Some b \<Rightarrow> Done (h[p := None])))"

text \<open>
  The latest version of the source (\<open>struct string\<close> with a \<open>value\<close> pointer) allocates
  the characters apart from the meta data, with \<open>calloc\<close>; \<open>sizeof(struct string)\<close> is 8.
  Its \<open>string_empty\<close> is \<open>create_string(0)\<close>, and its \<open>sub_string\<close> leaves the
  terminator to \<open>calloc\<close>.
\<close>

definition sizeof_string :: size_t where
  "sizeof_string = 8"

definition create_string :: "allocator \<Rightarrow> size_t \<Rightarrow> string_block option" where
  "create_string A n =
     (if \<not> grants A (unat (sizeof_meta + sizeof_string)) then None
      else if \<not> grants A (unat (n + 1)) then None
      else Some \<lparr>len = n, capacity = n + 1, chars = replicate (unat (n + 1)) 0\<rparr>)"

definition sub_string_part_000 ::
    "allocator \<Rightarrow> heap \<Rightarrow> byte list \<Rightarrow> uint \<Rightarrow> size_t \<Rightarrow> (heap \<times> addr option) outcome" where
  "sub_string_part_000 A h src start n =
     (case create_string A n of
        None \<Rightarrow> Done (h, None)
      | Some str \<Rightarrow>
          and_then (strncpy (chars str) 0 src (unat start) (unat n)) (\<lambda>cs.
          Done (place h (str\<lparr>chars := cs\<rparr>))))"

definition string_empty_part_000 :: "allocator \<Rightarrow> heap \<Rightarrow> heap \<times> addr option" where
  "string_empty_part_000 A h =
     (case create_string A 0 of None \<Rightarrow> (h, None) | Some str \<Rightarrow> place h str)"

text \<open>
  A mutating function called on the string at an address: the object there is handed
  to the function and what the function leaves is stored back, the cell being empty when
  the function has freed the block. The address stands for the allocation, which
  \<open>realloc\<close> hands on to the resized block.
\<close>

definition at_address ::
    "heap \<Rightarrow> addr option
      \<Rightarrow> (string_block option \<Rightarrow> (int \<times> string_block option) outcome)
      \<Rightarrow> (int \<times> heap) outcome" where
  "at_address h str f =
     (case str of
        None \<Rightarrow> and_then (f None) (\<lambda>(res, r). Done (res, h))
      | Some p \<Rightarrow>
          (case cell h p of
             None \<Rightarrow> Undefined
           | Some b \<Rightarrow>
               and_then (f (Some b)) (\<lambda>(res, r). Done (res, h[p := r]))))"

section \<open>Example values\<close>

text \<open>An allocator that grants every request, and one that grants none.\<close>

definition generous :: allocator where
  "generous = \<lparr>grants = (\<lambda>n. True), junk = (\<lambda>i. 170)\<rparr>"

definition exhausted :: allocator where
  "exhausted = \<lparr>grants = (\<lambda>n. False), junk = (\<lambda>i. 170)\<rparr>"

text \<open>The empty string, and the strings \<open>"a"\<close> and \<open>"hello"\<close>.\<close>

definition str_empty :: string_block where
  "str_empty = \<lparr>len = 0, capacity = 1, chars = [0]\<rparr>"

definition str_a :: string_block where
  "str_a = \<lparr>len = 1, capacity = 2, chars = [97, 0]\<rparr>"

definition str_hello :: string_block where
  "str_hello = \<lparr>len = 5, capacity = 6, chars = [104, 101, 108, 108, 111, 0]\<rparr>"

definition str_a_roomy :: string_block where
  "str_a_roomy = \<lparr>len = 1, capacity = 4, chars = [97, 0, 98, 0]\<rparr>"

definition str_a_nul_b :: string_block where
  "str_a_nul_b = \<lparr>len = 3, capacity = 5, chars = [97, 0, 98, 0, 170]\<rparr>"

definition return_value :: "(int \<times> 'a) outcome \<Rightarrow> int option" where
  "return_value m = (case m of Done (r, x) \<Rightarrow> Some r | Undefined \<Rightarrow> None)"

definition string_after :: "(int \<times> string_block option) outcome \<Rightarrow> string_block option" where
  "string_after m = (case m of Done (r, x) \<Rightarrow> x | Undefined \<Rightarrow> None)"

section \<open>Basic facts\<close>

subsection \<open>Results and word arithmetic\<close>

lemmas errno_defs = ENOMEM_def EINVAL_def ERANGE_def

lemma and_then_simps [simp]:
  "and_then (Done x) f = f x"
  "and_then Undefined f = Undefined"
  by (simp_all add: and_then_def)

lemma and_then_Done_iff:
  "and_then m f = Done y \<longleftrightarrow> (\<exists>x. m = Done x \<and> f x = Done y)"
  by (cases m) simp_all

lemma unat_add_no_wrap:
  "unat a + unat b < 2 ^ 64 \<Longrightarrow> unat (a + b :: size_t) = unat a + unat b"
  by (simp add: unat_word_ariths)

lemma unat_succ_no_wrap:
  "unat a + 1 < 2 ^ 64 \<Longrightarrow> unat (a + 1 :: size_t) = unat a + 1"
  by (simp add: unat_word_ariths)

lemma no_growth_needed:
  assumes "unat n + 1 \<le> unat (c :: size_t)"
  shows "n + 1 \<le> c"
proof -
  have "unat n + 1 < 2 ^ 64"
    using assms unsigned_less [of c, where 'a = nat] by simp
  then have "unat (n + 1) = unat n + 1"
    by (rule unat_succ_no_wrap)
  with assms show ?thesis
    by (simp add: word_le_nat_alt)
qed

lemma ucast_uint_size_t: "unat (ucast (start :: uint) :: size_t) = unat start"
proof -
  have "unat start < 2 ^ 32"
    using unsigned_less [of start, where 'a = nat] by simp
  then have "unat start < 2 ^ 64" by simp
  then show ?thesis
    by (simp add: unsigned_ucast_eq take_bit_nat_eq_self)
qed

lemma ucast_size_t_uint:
  assumes "unat (n :: size_t) < 2 ^ 32"
  shows "unat (ucast n :: uint) = unat n"
  using assms by (simp add: unsigned_ucast_eq take_bit_nat_eq_self)

lemma unat_of_length:
  assumes "m \<le> INT_MAX"
  shows "unat (word_of_int (int m) :: size_t) = m"
proof -
  from assms have "m < 2 ^ 64" by (simp add: INT_MAX_def)
  then show ?thesis
    by (simp add: unat_of_nat)
qed

subsection \<open>The C library\<close>

lemma write_char_Done_iff:
  "write_char cs i c = Done cs' \<longleftrightarrow> i < length cs \<and> cs' = cs[i := c]"
  by (auto simp: write_char_def)

lemma memmove_Done_iff:
  "memmove buf d s n = Done r \<longleftrightarrow>
     s + n \<le> length buf \<and> d + n \<le> length buf \<and>
     r = take d buf @ take n (drop s buf) @ drop (d + n) buf"
  by (auto simp: memmove_def)

lemma length_memmove: "memmove buf d s n = Done r \<Longrightarrow> length r = length buf"
  by (auto simp: memmove_Done_iff)

lemma strncpy_image_length: "strncpy_image src n = Done img \<Longrightarrow> length img = n"
proof -
  assume a: "strncpy_image src n = Done img"
  have "length (takeWhile (\<lambda>c. c \<noteq> 0) (take n src)) \<le> n"
    using length_takeWhile_le [of "\<lambda>c. c \<noteq> 0" "take n src"] by simp
  with a show ?thesis
    by (auto simp: strncpy_image_def Let_def split: if_splits)
qed

lemma strncpy_Done:
  assumes "strncpy dst off src start n = Done r"
  obtains img where "strncpy_image (drop start src) n = Done img" "length img = n"
    "off + n \<le> length dst" "r = take off dst @ img @ drop (off + n) dst"
  using assms
  by (auto simp: strncpy_def and_then_Done_iff strncpy_image_length split: if_splits)

lemma length_strncpy: "strncpy dst off src start n = Done r \<Longrightarrow> length r = length dst"
  by (erule strncpy_Done) simp

lemma takeWhile_no_nul: "0 \<notin> set xs \<Longrightarrow> takeWhile (\<lambda>c. c \<noteq> (0 :: byte)) xs = xs"
  by (induction xs) auto

lemma strncpy_image_no_nul:
  assumes "n \<le> length src" "0 \<notin> set (take n src)"
  shows "strncpy_image src n = Done (take n src)"
proof -
  from assms(2) have "\<forall>x\<in>set (take n src). x \<noteq> 0" by auto
  then have whole: "takeWhile (\<lambda>c. c \<noteq> 0) (take n src) = take n src" by simp
  show ?thesis
    unfolding strncpy_image_def Let_def whole using assms(1) by simp
qed

lemma strncpy_image_within:
  assumes "n < length src"
  shows "strncpy_image src n = Done (takeWhile (\<lambda>c. c \<noteq> 0) (take n src)
    @ replicate (n - length (takeWhile (\<lambda>c. c \<noteq> 0) (take n src))) 0)"
proof -
  have "length (takeWhile (\<lambda>c. c \<noteq> 0) (take n src)) \<le> n"
    using length_takeWhile_le [of "\<lambda>c. c \<noteq> 0" "take n src"] by simp
  with assms show ?thesis
    by (simp add: strncpy_image_def Let_def)
qed

lemma length_realloc_chars [simp]: "length (realloc_chars A cs n) = n"
  by (simp add: realloc_chars_def)

lemma take_realloc_chars:
  "k \<le> n \<Longrightarrow> k \<le> length cs \<Longrightarrow> take k (realloc_chars A cs n) = take k cs"
  by (simp add: realloc_chars_def min_def)

lemma nth_realloc_chars:
  "k < n \<Longrightarrow> k < length cs \<Longrightarrow> realloc_chars A cs n ! k = cs ! k"
  by (simp add: realloc_chars_def nth_append)

lemma singleton_update: "length ys = 1 \<Longrightarrow> ys[0 := x] = [x]"
  by (cases ys) simp_all

lemma drop_update_head: "k < length xs \<Longrightarrow> (drop k xs)[0 := x] = x # drop (Suc k) xs"
  by (simp add: Cons_nth_drop_Suc [symmetric])

lemma replicate_numeral: "replicate (numeral k) x = x # replicate (pred_numeral k) x"
  by (simp add: numeral_eq_Suc)

subsection \<open>Valid strings\<close>

lemma valid_sized: "valid s \<Longrightarrow> sized s"
  by (simp add: valid_def sized_def)

lemma valid_iff:
  "valid s \<longleftrightarrow> sized s \<and> unat (len s) < length (chars s) \<and> chars s ! unat (len s) = 0"
  by (auto simp: valid_def sized_def)

lemma length_content: "valid b \<Longrightarrow> length (content b) = unat (len b)"
  by (simp add: content_def valid_def)

subsection \<open>Resizing\<close>

lemma deref_simps [simp]:
  "deref (Some s) f = f s"
  "deref None f = Undefined"
  by (simp_all add: deref_def)

text \<open>The request that \<open>set_string_length\<close> makes is for an odd number of bytes, never 0.\<close>

lemma odd_request: "sizeof_meta + (n * 2 + 1) \<noteq> (0 :: size_t)"
proof
  assume "sizeof_meta + (n * 2 + 1) = 0"
  then have "even (sizeof_meta + (n * 2 + 1))"
    by simp
  then show False
    by (simp add: sizeof_meta_def)
qed

lemma set_string_capacity_Done:
  assumes "set_string_capacity A s cap = Done (res, r)"
  shows "res = 0 \<and>
           r = Some (s\<lparr>capacity := cap, chars := realloc_chars A (chars s) (unat cap)\<rparr>)
           \<and> 16 + unat cap < 2 ^ 64
         \<or> res = - ENOMEM \<and> r = Some s
         \<or> res = - ENOMEM \<and> r = None \<and> sizeof_meta + cap = 0"
proof -
  let ?b = "unat (sizeof_meta + cap)"
  show ?thesis
  proof (cases "?b = 0")
    case True
    then have "sizeof_meta + cap = 0"
      by (simp add: unsigned_eq_0_iff)
    with assms True show ?thesis
      by (simp add: set_string_capacity_def)
  next
    case nonzero: False
    show ?thesis
    proof (cases "grants A ?b")
      case False
      with assms nonzero show ?thesis
        by (auto simp: set_string_capacity_def Let_def split: if_splits)
    next
      case True
      with assms nonzero have ge: "16 \<le> ?b"
        and r: "r = Some (s\<lparr>capacity := cap,
                  chars := realloc_chars A (chars s) (?b - 16)\<rparr>)"
        and res: "res = 0"
        by (auto simp: set_string_capacity_def Let_def sizeof_meta_def split: if_splits)
      have "?b = (16 + unat cap) mod 2 ^ 64"
        by (simp add: sizeof_meta_def unat_word_ariths)
      with ge have "16 + unat cap < 2 ^ 64 \<and> ?b = 16 + unat cap"
        using unsigned_less [of cap, where 'a = nat] by (auto simp: mod_if split: if_splits)
      with r res show ?thesis by simp
    qed
  qed
qed

lemma set_string_capacity_sized:
  assumes "set_string_capacity A s cap = Done (0, Some s')"
  shows "sized s'" "len s' = len s" "capacity s' = cap"
    "chars s' = realloc_chars A (chars s) (unat cap)"
  using set_string_capacity_Done [OF assms]
  by (auto simp: sized_def errno_defs)

lemma set_string_capacity_success:
  assumes "set_string_capacity A s cap = Done (0, r)"
  shows "\<exists>s'. r = Some s'"
  using set_string_capacity_Done [OF assms] by (auto simp: errno_defs)

lemma set_string_capacity_failed:
  assumes "set_string_capacity A s cap = Done (res, r)" "res \<noteq> 0"
  shows "res = - ENOMEM" "r = Some s \<or> r = None \<and> sizeof_meta + cap = 0"
  using set_string_capacity_Done [OF assms(1)] assms(2) by auto

text \<open>The one request on which \<open>set_string_capacity\<close> destroys the string.\<close>

lemma set_string_capacity_freed:
  "set_string_capacity A s (- sizeof_meta) = Done (- ENOMEM, None)"
  by (simp add: set_string_capacity_def)

lemma set_string_capacity_valid:
  assumes "valid s" "set_string_capacity A s cap = Done (0, Some t)" "unat (len s) < unat cap"
  shows "valid t \<and> len t = len s \<and> capacity t = cap \<and> content t = content s"
proof -
  note t = set_string_capacity_sized [OF assms(2)]
  from assms(1) have "unat (len s) < length (chars s)" "chars s ! unat (len s) = 0"
    by (simp_all add: valid_def)
  with t assms(3) show ?thesis
    by (simp add: valid_iff content_def nth_realloc_chars take_realloc_chars)
qed

lemma set_string_length_cases:
  assumes "set_string_length A s n = Done (res, r)"
  obtains
    (keep) "res = 0" "n + 1 \<le> capacity s" "r = Some (s\<lparr>len := n\<rparr>)"
  | (grow) t where "res = 0" "capacity s < n + 1"
      "set_string_capacity A s (n * 2 + 1) = Done (0, Some t)" "r = Some (t\<lparr>len := n\<rparr>)"
  | (fail) "res = - ENOMEM" "capacity s < n + 1" "r = Some s"
proof (cases "capacity s < n + 1")
  case False
  with assms have "res = 0" "n + 1 \<le> capacity s" "r = Some (s\<lparr>len := n\<rparr>)"
    by (auto simp: set_string_length_def not_less)
  then show ?thesis by (rule keep)
next
  case True
  with assms obtain r0 x where
    cap: "set_string_capacity A s (n * 2 + 1) = Done (r0, x)"
    and rest: "(if r0 < 0 then Done (r0, x)
                else deref x (\<lambda>s'. Done (0, Some (s'\<lparr>len := n\<rparr>)))) = Done (res, r)"
    by (auto simp: set_string_length_def and_then_Done_iff)
  from set_string_capacity_Done [OF cap] odd_request [of n]
  consider t where "r0 = 0" "x = Some t" | "r0 = - ENOMEM" "x = Some s"
    by auto
  then show ?thesis
  proof cases
    case 1
    with rest have "res = 0" "r = Some (t\<lparr>len := n\<rparr>)" by auto
    with True cap 1 show ?thesis by (intro grow [of t]) simp_all
  next
    case 2
    with rest have "res = - ENOMEM" "r = Some s" by (auto simp: ENOMEM_def)
    with True show ?thesis by (intro fail)
  qed
qed

lemma set_string_length_sized:
  assumes "sized s" "set_string_length A s n = Done (0, Some s')"
  shows "sized s' \<and> len s' = n \<and>
         (capacity s \<le> capacity s' \<or> unat (capacity s') < unat n + 1)"
  using assms(2)
proof (cases rule: set_string_length_cases)
  case keep
  with assms(1) show ?thesis by (auto simp: sized_def)
next
  case (grow t)
  from grow(4) have s': "s' = t\<lparr>len := n\<rparr>" by simp
  have "unat (capacity s) < unat (n + 1)"
    using grow(2) by (simp add: word_less_nat_alt)
  also have "\<dots> \<le> unat n + 1"
    by (simp add: unat_word_ariths)
  finally have "unat (capacity s') < unat n + 1 \<or> unat (capacity s) \<le> unat (capacity s')"
    by arith
  then have "capacity s \<le> capacity s' \<or> unat (capacity s') < unat n + 1"
    by (auto simp: word_le_nat_alt)
  with s' set_string_capacity_sized [OF grow(3)] show ?thesis
    by (simp add: sized_def)
next
  case fail
  then show ?thesis by (simp add: ENOMEM_def)
qed

lemma set_string_length_success:
  assumes "set_string_length A s n = Done (0, r)"
  shows "\<exists>s'. r = Some s'"
  using assms by (cases rule: set_string_length_cases) (simp_all add: ENOMEM_def)

lemma set_string_length_kept:
  assumes "set_string_length A s n = Done (0, Some s')" "unat n + 1 \<le> unat (capacity s)"
  shows "s' = s\<lparr>len := n\<rparr>"
  using assms(1)
proof (cases rule: set_string_length_cases)
  case keep
  then show ?thesis by simp
next
  case (grow t)
  with no_growth_needed [OF assms(2)] show ?thesis by (simp add: leD)
next
  case fail
  then show ?thesis by (simp add: ENOMEM_def)
qed

lemma set_string_length_take:
  assumes "set_string_length A s m = Done (0, Some d)"
    "k \<le> length (chars s)" "k \<le> length (chars d)"
  shows "take k (chars d) = take k (chars s)"
  using assms(1)
proof (cases rule: set_string_length_cases)
  case keep
  then show ?thesis by auto
next
  case (grow t)
  from grow(4) have "d = t\<lparr>len := m\<rparr>" by simp
  with set_string_capacity_sized [OF grow(3)] assms(2,3) show ?thesis
    by (simp add: take_realloc_chars)
next
  case fail
  then show ?thesis by (simp add: ENOMEM_def)
qed

subsection \<open>Copying, appending and prepending\<close>

lemma after_set_string_length:
  assumes "and_then (set_string_length A s m)
             (\<lambda>(res, r). if res < 0 then Done (res, r) else deref r body) = Done (r', x)"
  obtains (nomem) "r' = - ENOMEM" "x = Some s"
  | (resized) d where "set_string_length A s m = Done (0, Some d)" "body d = Done (r', x)"
proof -
  from assms obtain res r where
    sl: "set_string_length A s m = Done (res, r)"
    and rest: "(if res < 0 then Done (res, r) else deref r body) = Done (r', x)"
    by (auto simp: and_then_Done_iff)
  from sl show ?thesis
  proof (cases rule: set_string_length_cases)
    case keep
    with sl rest show ?thesis by (intro resized [of "s\<lparr>len := m\<rparr>"]) simp_all
  next
    case (grow t)
    with sl rest show ?thesis by (intro resized [of "t\<lparr>len := m\<rparr>"]) simp_all
  next
    case fail
    with rest have "r' = - ENOMEM" "x = Some s" by (simp_all add: ENOMEM_def)
    then show ?thesis by (rule nomem)
  qed
qed

lemma copy_string_Done:
  assumes "copy_string A s src n = Done (r, x)"
  obtains (fail) "r = - ENOMEM" "x = Some s"
  | (ok) d img where "r = 0" "set_string_length A s n = Done (0, Some d)"
      "strncpy_image src (unat n) = Done img" "unat n < length (chars d)"
      "x = Some (d\<lparr>chars := (img @ drop (unat n) (chars d))[unat n := 0]\<rparr>)"
  using assms unfolding copy_string_def
proof (cases rule: after_set_string_length)
  case nomem
  then show ?thesis by (rule fail)
next
  case inner: (resized d)
  then obtain cs where cs: "strncpy (chars d) 0 src 0 (unat n) = Done cs"
    and w: "unat n < length cs" and x: "x = Some (d\<lparr>chars := cs[unat n := 0]\<rparr>)"
    and r: "r = 0"
    by (auto simp: and_then_Done_iff write_char_Done_iff)
  from cs obtain img where "strncpy_image src (unat n) = Done img"
    "cs = img @ drop (unat n) (chars d)"
    "length cs = length (chars d)"
    by (auto elim!: strncpy_Done)
  with w x r inner(1) show ?thesis by (intro ok [of d img]) simp_all
qed

lemma append_string_Done:
  assumes "append_string A s src n = Done (r, x)"
  obtains (fail) "r = - ENOMEM" "x = Some s"
  | (ok) d img where "r = 0" "set_string_length A s (len s + n) = Done (0, Some d)"
      "strncpy_image src (unat n) = Done img" "unat (len s) + unat n \<le> length (chars d)"
      "unat (len s + n) < length (chars d)"
      "x = Some (d\<lparr>chars := (take (unat (len s)) (chars d) @ img
                @ drop (unat (len s) + unat n) (chars d))[unat (len s + n) := 0]\<rparr>)"
  using assms unfolding append_string_def Let_def
proof (cases rule: after_set_string_length)
  case nomem
  then show ?thesis by (rule fail)
next
  case inner: (resized d)
  then obtain cs where cs: "strncpy (chars d) (unat (len s)) src 0 (unat n) = Done cs"
    and w: "unat (len s + n) < length cs"
    and x: "x = Some (d\<lparr>chars := cs[unat (len s + n) := 0]\<rparr>)" and r: "r = 0"
    by (auto simp: and_then_Done_iff write_char_Done_iff)
  from cs obtain img where "strncpy_image src (unat n) = Done img"
    "cs = take (unat (len s)) (chars d) @ img @ drop (unat (len s) + unat n) (chars d)"
    "length cs = length (chars d)" "unat (len s) + unat n \<le> length (chars d)"
    by (auto elim!: strncpy_Done)
  with w x r inner(1) show ?thesis by (intro ok [of d img]) simp_all
qed

lemma prepend_string_Done:
  assumes "prepend_string A s src n = Done (r, x)"
  obtains (fail) "r = - ENOMEM" "x = Some s"
  | (ok) d img where "r = 0" "set_string_length A s (len s + n) = Done (0, Some d)"
      "strncpy_image src (unat n) = Done img" "unat n + unat (len s) \<le> length (chars d)"
      "unat (len s + n) < length (chars d)"
      "x = Some (d\<lparr>chars := (img @ take (unat (len s)) (chars d)
                @ drop (unat n + unat (len s)) (chars d))[unat (len s + n) := 0]\<rparr>)"
  using assms unfolding prepend_string_def Let_def
proof (cases rule: after_set_string_length)
  case nomem
  then show ?thesis by (rule fail)
next
  case inner: (resized d)
  then obtain cs0 cs where mv: "memmove (chars d) (unat n) 0 (unat (len s)) = Done cs0"
    and cs: "strncpy cs0 0 src 0 (unat n) = Done cs"
    and w: "unat (len s + n) < length cs"
    and x: "x = Some (d\<lparr>chars := cs[unat (len s + n) := 0]\<rparr>)" and r: "r = 0"
    by (auto simp: and_then_Done_iff write_char_Done_iff)
  from mv have fit: "unat n + unat (len s) \<le> length (chars d)"
    and cs0: "cs0 = take (unat n) (chars d) @ take (unat (len s)) (chars d)
                @ drop (unat n + unat (len s)) (chars d)"
    by (simp_all add: memmove_Done_iff)
  from cs obtain img where img: "strncpy_image src (unat n) = Done img" "length img = unat n"
    and cs': "cs = img @ drop (unat n) cs0" "length cs = length cs0"
    by (auto elim!: strncpy_Done)
  from fit cs0 have "drop (unat n) cs0 = take (unat (len s)) (chars d)
      @ drop (unat n + unat (len s)) (chars d)"
    by simp
  moreover from fit cs0 have "length cs0 = length (chars d)" by simp
  ultimately show ?thesis using w x r inner(1) img cs' fit
    by (intro ok [of d img]) simp_all
qed

lemma copy_string_valid:
  assumes "sized s" "copy_string A s src n = Done (0, x)"
  shows "\<exists>s'. x = Some s' \<and> valid s' \<and> len s' = n \<and> capacity s \<le> capacity s'"
  using assms(2)
proof (cases rule: copy_string_Done)
  case fail
  then show ?thesis by (simp add: ENOMEM_def)
next
  case (ok d img)
  define s' where "s' = d\<lparr>chars := (img @ drop (unat n) (chars d))[unat n := 0]\<rparr>"
  from set_string_length_sized [OF assms(1) ok(2)]
  have d: "sized d" "len d = n"
    and cap: "capacity s \<le> capacity d \<or> unat (capacity d) < unat n + 1"
    by simp_all
  from ok(3) have "length img = unat n" by (rule strncpy_image_length)
  with ok(4) d have "sized s'" "len s' = n" "unat (len s') < length (chars s')"
    "chars s' ! unat (len s') = 0" "capacity s' = capacity d"
    by (simp_all add: sized_def s'_def)
  moreover from cap d(1) ok(4) have "capacity s \<le> capacity d"
    by (auto simp: sized_def)
  ultimately show ?thesis using ok(5) by (simp add: valid_iff s'_def)
qed

lemma append_string_valid:
  assumes "sized s" "append_string A s src n = Done (0, x)"
  shows "\<exists>s'. x = Some s' \<and> valid s' \<and> len s' = len s + n \<and> capacity s \<le> capacity s'"
  using assms(2)
proof (cases rule: append_string_Done)
  case fail
  then show ?thesis by (simp add: ENOMEM_def)
next
  case (ok d img)
  define s' where "s' = d\<lparr>chars := (take (unat (len s)) (chars d) @ img
                @ drop (unat (len s) + unat n) (chars d))[unat (len s + n) := 0]\<rparr>"
  from set_string_length_sized [OF assms(1) ok(2)]
  have d: "sized d" "len d = len s + n"
    and cap: "capacity s \<le> capacity d \<or> unat (capacity d) < unat (len s + n) + 1"
    by simp_all
  from ok(3) have "length img = unat n" by (rule strncpy_image_length)
  with ok(4,5) d have "sized s'" "len s' = len s + n" "unat (len s') < length (chars s')"
    "chars s' ! unat (len s') = 0" "capacity s' = capacity d"
    by (simp_all add: sized_def s'_def)
  moreover from cap d(1) ok(5) have "capacity s \<le> capacity d"
    by (auto simp: sized_def)
  ultimately show ?thesis using ok(6) by (simp add: valid_iff s'_def)
qed

lemma prepend_string_valid:
  assumes "sized s" "prepend_string A s src n = Done (0, x)"
  shows "\<exists>s'. x = Some s' \<and> valid s' \<and> len s' = len s + n \<and> capacity s \<le> capacity s'"
  using assms(2)
proof (cases rule: prepend_string_Done)
  case fail
  then show ?thesis by (simp add: ENOMEM_def)
next
  case (ok d img)
  define s' where "s' = d\<lparr>chars := (img @ take (unat (len s)) (chars d)
                @ drop (unat n + unat (len s)) (chars d))[unat (len s + n) := 0]\<rparr>"
  from set_string_length_sized [OF assms(1) ok(2)]
  have d: "sized d" "len d = len s + n"
    and cap: "capacity s \<le> capacity d \<or> unat (capacity d) < unat (len s + n) + 1"
    by simp_all
  from ok(3) have "length img = unat n" by (rule strncpy_image_length)
  with ok(4,5) d have "sized s'" "len s' = len s + n" "unat (len s') < length (chars s')"
    "chars s' ! unat (len s') = 0" "capacity s' = capacity d"
    by (simp_all add: sized_def s'_def)
  moreover from cap d(1) ok(5) have "capacity s \<le> capacity d"
    by (auto simp: sized_def)
  ultimately show ?thesis using ok(6) by (simp add: valid_iff s'_def)
qed

lemma copy_string_failed:
  assumes "copy_string A s src n = Done (r, x)" "r \<noteq> 0"
  shows "x = Some s"
  using assms(1) by (cases rule: copy_string_Done) (use assms(2) in simp_all)

lemma append_string_failed:
  assumes "append_string A s src n = Done (r, x)" "r \<noteq> 0"
  shows "x = Some s"
  using assms(1) by (cases rule: append_string_Done) (use assms(2) in simp_all)

lemma prepend_string_failed:
  assumes "prepend_string A s src n = Done (r, x)" "r \<noteq> 0"
  shows "x = Some s"
  using assms(1) by (cases rule: prepend_string_Done) (use assms(2) in simp_all)

lemma prepend_string_shape:
  assumes "valid s" "prepend_string A s X n = Done (0, Some s1)"
  obtains img rest where "strncpy_image X (unat n) = Done img" "length img = unat n"
    "chars s1 = img @ content s @ 0 # rest" "len s1 = len s + n"
    "unat (len s + n) = unat (len s) + unat n" "valid s1"
  using assms(2)
proof (cases rule: prepend_string_Done)
  case fail
  then show ?thesis by (simp add: ENOMEM_def)
next
  case (ok d img)
  let ?L = "unat (len s)"
  let ?n = "unat n"
  note sz = valid_sized [OF assms(1)]
  from ok(6) have s1: "s1 = d\<lparr>chars := (img @ take ?L (chars d)
                @ drop (?n + ?L) (chars d))[unat (len s + n) := 0]\<rparr>"
    by simp
  from set_string_length_sized [OF sz ok(2)] have d: "sized d" "len d = len s + n"
    by simp_all
  from ok(3) have img: "length img = ?n" by (rule strncpy_image_length)
  from d(1) ok(4) have "?L + ?n < 2 ^ 64" by (simp add: sized_def)
  then have sum: "unat (len s + n) = ?L + ?n" by (rule unat_add_no_wrap)
  from assms(1) have L: "?L \<le> length (chars s)" by (simp add: valid_def)
  from ok(4) have "?L \<le> length (chars d)" by simp
  from set_string_length_take [OF ok(2) L this]
  have keep: "take ?L (chars d) = content s" by (simp add: content_def)
  from L have cl: "length (content s) = ?L" by (simp add: content_def)
  from ok(5) sum have lt: "?n + ?L < length (chars d)" by simp
  have "(img @ content s @ drop (?n + ?L) (chars d))[?L + ?n := 0]
      = img @ content s @ (drop (?n + ?L) (chars d))[0 := 0]"
    using img cl by (simp add: list_update_append)
  also have "\<dots> = img @ content s @ 0 # drop (Suc (?n + ?L)) (chars d)"
    using lt by (simp add: drop_update_head)
  finally have "chars s1 = img @ content s @ 0 # drop (Suc (?n + ?L)) (chars d)"
    using s1 keep sum by simp
  moreover from s1 d(2) have "len s1 = len s + n" by simp
  moreover from prepend_string_valid [OF sz assms(2)] have "valid s1" by simp
  ultimately show ?thesis
    using ok(3) img sum by (intro that [of img]) simp_all
qed

lemma prepend_string_succeeds:
  assumes "valid s" "strncpy_image X (unat n) = Done img"
    "grants A (2 * (unat (len s) + unat n) + 17)"
    "2 * (unat (len s) + unat n) + 17 < 2 ^ 64"
  shows "\<exists>s1. prepend_string A s X n = Done (0, Some s1)"
proof -
  let ?L = "unat (len s)"
  let ?n = "unat n"
  let ?m = "len s + n"
  from assms(4) have m: "unat ?m = ?L + ?n"
    by (intro unat_add_no_wrap) simp
  with assms(4) have m1: "unat (?m + 1) = ?L + ?n + 1"
    by (simp add: unat_succ_no_wrap)
  have "\<exists>d. set_string_length A s ?m = Done (0, Some d) \<and> ?L + ?n + 1 \<le> length (chars d)"
  proof (cases "capacity s < ?m + 1")
    case False
    with m1 have "?L + ?n + 1 \<le> unat (capacity s)"
      by (simp add: word_less_nat_alt)
    with assms(1) False show ?thesis
      by (simp add: set_string_length_def valid_def)
  next
    case True
    have "unat (?m * 2 + 1) = 2 * (?L + ?n) + 1"
      using m assms(4) by (simp add: unat_word_ariths)
    with assms(4) have "unat (sizeof_meta + (?m * 2 + 1)) = 2 * (?L + ?n) + 17"
      by (simp add: sizeof_meta_def unat_word_ariths)
    with True assms(3) show ?thesis
      by (simp add: set_string_length_def set_string_capacity_def sizeof_meta_def Let_def)
  qed
  then obtain d where d: "set_string_length A s ?m = Done (0, Some d)"
    and room: "?L + ?n + 1 \<le> length (chars d)" by blast
  from assms(2) have "length img = ?n" by (rule strncpy_image_length)
  with d room m assms(2) show ?thesis
    by (simp add: prepend_string_def Let_def memmove_def strncpy_def write_char_def)
qed

lemma copy_v_Done:
  assumes "string_copy_v A (Some s) src n = Done (r, x)"
  obtains (null) "src = None" "r = - EINVAL" "x = Some s"
  | (call) cs where "src = Some cs" "copy_string A s cs n = Done (r, x)"
  using assms
  by (cases src) (auto simp: string_copy_v_def)

lemma append_v_Done:
  assumes "string_append_v A (Some s) src n = Done (r, x)"
  obtains (null) "src = None" "r = - EINVAL" "x = Some s"
  | (call) cs where "src = Some cs" "append_string A s cs n = Done (r, x)"
  using assms
  by (cases src) (auto simp: string_append_v_def)

lemma prepend_v_Done:
  assumes "string_prepend_v A (Some s) src n = Done (r, x)"
  obtains (null) "src = None" "r = - EINVAL" "x = Some s"
  | (call) cs where "src = Some cs" "prepend_string A s cs n = Done (r, x)"
  using assms
  by (cases src) (auto simp: string_prepend_v_def)

subsection \<open>Clearing, cutting, reserving, fitting and formatting\<close>

lemma string_clear_valid:
  assumes "valid s" "string_clear (Some s) = Done (r, x)"
  shows "\<exists>s'. x = Some s' \<and> r = 0 \<and> valid s' \<and> len s' = 0 \<and> capacity s' = capacity s"
  using assms
  by (auto simp: string_clear_def and_then_Done_iff write_char_Done_iff valid_def)

lemma string_cut_in_range:
  assumes "unat start + unat n \<le> unat (len s)" "unat (len s) < length (chars s)"
  shows "string_cut (Some s) start n
     = Done (0, Some (s\<lparr>len := n,
          chars := (take (unat n) (drop (unat start) (chars s))
                    @ drop (unat n) (chars s))[unat n := 0]\<rparr>))"
proof -
  have "unat (ucast start :: size_t) + unat n < 2 ^ 64"
    using assms(1) unsigned_less [of "len s", where 'a = nat] by (simp add: ucast_uint_size_t)
  then have "unat (ucast start + n) = unat start + unat n"
    by (simp add: unat_add_no_wrap ucast_uint_size_t)
  with assms(1) have "\<not> len s < ucast start + n"
    by (simp add: word_less_nat_alt)
  with assms show ?thesis
    by (simp add: string_cut_def memmove_def write_char_def)
qed

lemma string_cut_out_of_range:
  assumes "unat (len s) < unat start + unat n" "unat start + unat n < 2 ^ 64"
  shows "string_cut (Some s) start n = Done (- ERANGE, Some s)"
proof -
  from assms(2) have "unat (ucast start + n) = unat start + unat n"
    by (simp add: unat_add_no_wrap ucast_uint_size_t)
  with assms(1) have "len s < ucast start + n"
    by (simp add: word_less_nat_alt)
  then show ?thesis
    by (simp add: string_cut_def)
qed

lemma string_cut_Done:
  assumes "valid s" "string_cut (Some s) start n = Done (r, x)"
  obtains (range) "r = - ERANGE" "x = Some s" "len s < ucast start + n"
  | (ok) "r = 0" "unat start + unat n \<le> unat (len s)"
      "x = Some (s\<lparr>len := n,
          chars := (take (unat n) (drop (unat start) (chars s))
                    @ drop (unat n) (chars s))[unat n := 0]\<rparr>)"
proof (cases "len s < ucast start + n")
  case True
  with assms(2) range show ?thesis by (simp add: string_cut_def)
next
  case False
  with assms(2) obtain cs where "memmove (chars s) 0 (unat start) (unat n) = Done cs"
    by (auto simp: string_cut_def and_then_Done_iff)
  then have fits: "unat start + unat n \<le> length (chars s)"
    by (simp add: memmove_Done_iff)
  with assms(1) have "unat (ucast start :: size_t) + unat n < 2 ^ 64"
    by (simp add: valid_def ucast_uint_size_t)
  then have "unat (ucast start + n) = unat start + unat n"
    by (simp add: unat_add_no_wrap ucast_uint_size_t)
  with False have le: "unat start + unat n \<le> unat (len s)"
    by (simp add: word_less_nat_alt)
  moreover from assms(1) have "unat (len s) < length (chars s)"
    by (simp add: valid_def)
  ultimately have "string_cut (Some s) start n
     = Done (0, Some (s\<lparr>len := n,
          chars := (take (unat n) (drop (unat start) (chars s))
                    @ drop (unat n) (chars s))[unat n := 0]\<rparr>))"
    by (rule string_cut_in_range)
  with assms(2) le ok show ?thesis by simp
qed

lemma string_cut_valid:
  assumes "valid s" "string_cut (Some s) start n = Done (0, x)"
  shows "\<exists>s'. x = Some s' \<and> valid s' \<and> len s' = n \<and> capacity s' = capacity s"
  using assms
proof (cases rule: string_cut_Done)
  case range
  then show ?thesis by (simp add: ERANGE_def)
next
  case ok
  with assms(1) show ?thesis
    by (auto simp: valid_def)
qed

lemma string_reserve_Done:
  assumes "string_reserve A (Some s) sz = Done (r, x)"
  obtains (enough) "r = 0" "sz \<le> capacity s" "x = Some s"
  | (grown) t where "r = 0" "capacity s < sz" "set_string_capacity A s sz = Done (0, Some t)"
      "x = Some t"
  | (fail) "r = - ENOMEM" "x = Some s"
  | (freed) "r = - ENOMEM" "x = None" "sizeof_meta + sz = 0"
proof (cases "sz \<le> capacity s")
  case True
  with assms enough show ?thesis by (simp add: string_reserve_def)
next
  case False
  with assms have call: "set_string_capacity A s sz = Done (r, x)"
    by (simp add: string_reserve_def)
  from set_string_capacity_Done [OF call]
  consider t where "r = 0" "x = Some t" | "r = - ENOMEM" "x = Some s"
    | "r = - ENOMEM" "x = None" "sizeof_meta + sz = 0"
    by auto
  then show ?thesis
  proof cases
    case 1
    with call False show ?thesis by (intro grown [of t]) simp_all
  next
    case 2
    then show ?thesis by (rule fail)
  next
    case 3
    then show ?thesis by (rule freed)
  qed
qed

text \<open>The request of \<open>2^64 - 16\<close> bytes: \<open>string_reserve\<close> returns \<open>-ENOMEM\<close> and the block
  is freed, whatever the allocator and the string.\<close>

lemma string_reserve_freed:
  assumes "capacity s < - sizeof_meta"
  shows "string_reserve A (Some s) (- sizeof_meta) = Done (- ENOMEM, None)"
  using assms by (simp add: string_reserve_def set_string_capacity_freed leD)

lemma string_reserve_valid:
  assumes "valid s" "string_reserve A (Some s) sz = Done (0, x)"
  shows "\<exists>s'. x = Some s' \<and> valid s' \<and> len s' = len s \<and> capacity s \<le> capacity s'
           \<and> content s' = content s"
  using assms(2)
proof (cases rule: string_reserve_Done)
  case enough
  with assms(1) show ?thesis by simp
next
  case (grown t)
  from assms(1) grown(2) have "unat (len s) < unat sz"
    by (simp add: valid_def word_less_nat_alt)
  from set_string_capacity_valid [OF assms(1) grown(3) this] grown show ?thesis
    by simp
next
  case fail
  then show ?thesis by (simp add: ENOMEM_def)
next
  case freed
  then show ?thesis by (simp add: ENOMEM_def)
qed

lemma string_fit_Done:
  assumes "valid s" "string_fit A (Some s) = Done (0, x)"
  shows "\<exists>s'. x = Some s' \<and> valid s' \<and> len s' = len s \<and> capacity s' = len s + 1
           \<and> unat (capacity s') = unat (len s) + 1 \<and> content s' = content s"
proof -
  from assms(2) have call: "set_string_capacity A s (len s + 1) = Done (0, x)"
    by (simp add: string_fit_def)
  with set_string_capacity_success obtain t where t: "x = Some t"
    by blast
  from assms(1) have "unat (len s) + 1 < 2 ^ 64"
    by (simp add: valid_def)
  then have u: "unat (len s + 1) = unat (len s) + 1"
    by (rule unat_succ_no_wrap)
  then have "unat (len s) < unat (len s + 1)" by simp
  from set_string_capacity_valid [OF assms(1) call [unfolded t] this] t u show ?thesis
    by simp
qed

text \<open>A valid string never makes \<open>string_fit\<close> ask for 0 bytes.\<close>

lemma string_fit_failed:
  assumes "valid s" "string_fit A (Some s) = Done (r, x)" "r \<noteq> 0"
  shows "r = - ENOMEM \<and> x = Some s"
proof -
  from assms(2) have call: "set_string_capacity A s (len s + 1) = Done (r, x)"
    by (simp add: string_fit_def)
  from assms(1) have "16 + (unat (len s) + 1) < 2 ^ 64"
    by (simp add: valid_def)
  then have "unat (sizeof_meta + (len s + 1)) = 16 + (unat (len s) + 1)"
    by (simp add: sizeof_meta_def unat_word_ariths)
  then have "sizeof_meta + (len s + 1) \<noteq> 0"
    by (metis add_is_0 unsigned_0 zero_neq_numeral)
  with set_string_capacity_failed [OF call assms(3)] show ?thesis
    by simp
qed

lemma string_printf_Done:
  assumes "valid s" "length out \<le> INT_MAX"
  shows "string_printf (Some s) (Some out)
     = Done (int (length out),
         Some (s\<lparr>len := (if length out < unat (capacity s) then word_of_int (int (length out))
                         else capacity s - 1),
                 chars := take (min (length out) (unat (capacity s) - 1)) out @ [0]
                   @ drop (min (length out) (unat (capacity s) - 1) + 1) (chars s)\<rparr>))"
proof -
  from assms(1) have cap: "capacity s \<noteq> 0" "length (chars s) = unat (capacity s)"
    "0 < unat (capacity s)"
    by (auto simp: valid_def)
  have "(word_of_int (int (length out)) < capacity s) = (length out < unat (capacity s))"
    using unat_of_length [OF assms(2)] by (simp add: word_less_nat_alt)
  moreover have "\<not> length (chars s) \<le> min (length out) (unat (capacity s) - 1)"
    using cap(2,3) by arith
  ultimately show ?thesis
    using cap(1) assms(2) by (simp add: string_printf_def vsnprintf_def Let_def)
qed

lemma string_printf_valid:
  assumes "valid s" "length out \<le> INT_MAX"
    "string_printf (Some s) (Some out) = Done (r, x)"
  shows "\<exists>s'. x = Some s' \<and> valid s' \<and> capacity s' = capacity s
     \<and> unat (len s') = min (length out) (unat (capacity s) - 1)"
proof -
  from assms(1) have cap: "capacity s \<noteq> 0" "length (chars s) = unat (capacity s)"
    "0 < unat (capacity s)" "16 + unat (capacity s) < 2 ^ 64"
    by (auto simp: valid_def)
  from cap(1) have m1: "unat (capacity s - 1) = unat (capacity s) - 1"
    by (simp add: unat_minus_one)
  let ?k = "min (length out) (unat (capacity s) - 1)"
  have k: "?k < unat (capacity s)" using cap(3) by arith
  have l: "unat (if length out < unat (capacity s) then word_of_int (int (length out))
                  else capacity s - 1 :: size_t) = ?k"
  proof (cases "length out < unat (capacity s)")
    case True
    then have "?k = length out" by arith
    with True unat_of_length [OF assms(2)] show ?thesis by simp
  next
    case False
    then have "?k = unat (capacity s) - 1" by arith
    with False m1 show ?thesis by simp
  qed
  have n: "(take ?k out @ [0] @ drop (?k + 1) (chars s)) ! ?k = 0"
    by (simp add: nth_append min_def)
  have len': "length (take ?k out @ [0] @ drop (?k + 1) (chars s)) = unat (capacity s)"
    using k cap(2) by (simp add: min_def)
  from assms(3) string_printf_Done [OF assms(1,2)] l n len' k cap(4) show ?thesis
    by (auto simp: valid_def simp del: append.simps)
qed

subsection \<open>The heap and the creation functions\<close>

lemma cell_append_old: "p < length h \<Longrightarrow> cell (h @ [x]) p = cell h p"
  by (simp add: cell_def nth_append)

lemma cell_append_new: "cell (h @ [x]) (length h) = x"
  by (simp add: cell_def)

lemma cell_live: "cell h p = Some b \<Longrightarrow> p < length h"
  by (simp add: cell_def split: if_splits)

lemma cell_update_other: "p \<noteq> q \<Longrightarrow> cell (h[q := x]) p = cell h p"
  by (simp add: cell_def)

lemma at_address_frame:
  assumes "at_address h (Some q) f = Done (r, h'')" "p \<noteq> q"
  shows "cell h'' p = cell h p"
proof -
  from assms(1) obtain x where "h'' = h[q := x]"
    by (auto simp: at_address_def and_then_Done_iff split: option.splits)
  with assms(2) show ?thesis
    by (simp add: cell_update_other)
qed

lemma string_empty_Some:
  assumes "string_empty A h = (h', Some p)"
  shows "p = length h \<and> h' = h @ [Some \<lparr>len = 0, capacity = 1, chars = [0]\<rparr>]"
  using assms
  by (auto simp: string_empty_def place_def malloc_chars_def split: if_splits)

lemma sub_string_Done:
  assumes "sub_string A h src start n = Done (h', Some p)"
  obtains img where "strncpy_image (drop (unat start) src) (unat n) = Done img"
    "p = length h" "h' = h @ [Some \<lparr>len = n, capacity = n + 1, chars = img @ [0]\<rparr>]"
    "unat (n + 1) = unat n + 1" "16 + (unat n + 1) < 2 ^ 64"
proof -
  let ?b = "unat (sizeof_meta + n + 1)"
  let ?m = "malloc_chars A (?b - 16)"
  from assms obtain cs where ge: "16 \<le> ?b"
    and cs: "strncpy ?m 0 src (unat start) (unat n) = Done cs"
    and w: "unat n < length cs"
    and res: "(h', Some p) = place h \<lparr>len = n, capacity = n + 1, chars = cs[unat n := 0]\<rparr>"
    by (auto simp: sub_string_def Let_def sizeof_meta_def and_then_Done_iff
        write_char_Done_iff split: if_splits)
  from cs obtain img where img: "strncpy_image (drop (unat start) src) (unat n) = Done img"
    "length img = unat n" and cs': "cs = img @ drop (unat n) ?m"
    by (auto elim!: strncpy_Done)
  from cs have "length cs = ?b - 16"
    by (simp add: length_strncpy malloc_chars_def)
  with w ge have big: "unat n + 17 \<le> ?b" by simp
  have "?b = (17 + unat n) mod 2 ^ 64"
    by (simp add: sizeof_meta_def unat_word_ariths mod_simps)
  with big have nowrap: "17 + unat n < 2 ^ 64" and b: "?b = 17 + unat n"
    using unsigned_less [of n, where 'a = nat] by (auto simp: mod_if split: if_splits)
  from b have "length (drop (unat n) ?m) = 1"
    by (simp add: malloc_chars_def)
  with cs' img(2) have "cs[unat n := 0] = img @ [0]"
    by (simp add: list_update_append singleton_update)
  moreover from nowrap have "unat (n + 1) = unat n + 1"
    by (simp add: unat_succ_no_wrap)
  ultimately show ?thesis
    using res img(1) nowrap by (intro that [of img]) (simp_all add: place_def)
qed

lemma string_dup_Done:
  assumes "cell h p = Some b" "valid b" "string_dup A h (Some p) = Done (h', Some q)"
  shows "q = length h \<and>
    h' = h @ [Some \<lparr>len = len b, capacity = len b + 1,
      chars = takeWhile (\<lambda>c. c \<noteq> 0) (content b)
        @ replicate (unat (len b) - length (takeWhile (\<lambda>c. c \<noteq> 0) (content b))) 0 @ [0]\<rparr>]"
proof -
  from assms(1,3) have "sub_string A h (chars b) 0 (len b) = Done (h', Some q)"
    by (simp add: string_dup_def)
  then obtain img where img: "strncpy_image (drop (unat (0 :: uint)) (chars b)) (unat (len b))
      = Done img"
    and r: "q = length h"
      "h' = h @ [Some \<lparr>len = len b, capacity = len b + 1, chars = img @ [0]\<rparr>]"
    by (rule sub_string_Done)
  from assms(2) have "unat (len b) < length (chars b)"
    by (simp add: valid_def)
  from strncpy_image_within [OF this] img r show ?thesis
    by (simp add: content_def)
qed

text \<open>
  A successful \<open>string_dup\<close> of a valid string \<open>b\<close> returns the address of a new block,
  different from that of \<open>b\<close>, and leaves \<open>b\<close> as it is. The new string is valid and has
  the length of \<open>b\<close>; its content is the content of \<open>b\<close> up to the first NUL byte,
  followed by NUL bytes. Whatever a mutating function does to one of the two strings
  leaves the other unchanged.
\<close>

lemma string_dup_copy:
  assumes "cell h p = Some b" "valid b" "string_dup A h (Some p) = Done (h', Some q)"
  shows "q \<noteq> p \<and> cell h' p = Some b \<and>
     (\<exists>d. cell h' q = Some d \<and> valid d \<and> len d = len b \<and>
        content d = takeWhile (\<lambda>c. c \<noteq> 0) (content b)
          @ replicate (unat (len b) - length (takeWhile (\<lambda>c. c \<noteq> 0) (content b))) 0 \<and>
        (0 \<notin> set (content b) \<longrightarrow> content d = content b) \<and>
        (\<forall>f r h''. at_address h' (Some q) f = Done (r, h'') \<longrightarrow> cell h'' p = Some b) \<and>
        (\<forall>f r h''. at_address h' (Some p) f = Done (r, h'') \<longrightarrow> cell h'' q = Some d))"
proof -
  define tw where "tw = takeWhile (\<lambda>c. c \<noteq> 0) (content b)"
  define img where "img = tw @ replicate (unat (len b) - length tw) 0"
  define d where "d = \<lparr>len = len b, capacity = len b + 1, chars = img @ [0]\<rparr>"
  from string_dup_Done [OF assms]
  have q: "q = length h" and h': "h' = h @ [Some d]"
    by (simp_all add: d_def img_def tw_def)
  from assms(1) have p: "p < length h" by (rule cell_live)
  with q have ne: "q \<noteq> p" by simp
  from p h' assms(1) have old: "cell h' p = Some b"
    by (simp add: cell_append_old)
  from q h' have new: "cell h' q = Some d"
    by (simp add: cell_append_new)
  have "length tw \<le> length (content b)"
    unfolding tw_def by (rule length_takeWhile_le)
  with assms(2) have img: "length img = unat (len b)"
    by (simp add: img_def length_content)
  from assms(2) have "unat (len b) + 1 < 2 ^ 64"
    by (simp add: valid_def)
  then have u: "unat (len b + 1) = unat (len b) + 1"
    by (rule unat_succ_no_wrap)
  from assms(2) have "16 + (unat (len b) + 1) < 2 ^ 64"
    by (simp add: valid_def)
  with img u have v: "valid d"
    by (simp add: valid_def d_def nth_append)
  from img have c: "content d = img"
    by (simp add: content_def d_def)
  have same: "content d = content b" if "0 \<notin> set (content b)"
  proof -
    from that have "tw = content b"
      unfolding tw_def by (rule takeWhile_no_nul)
    then have "img = content b"
      by (simp add: img_def length_content [OF assms(2)])
    with c show ?thesis by simp
  qed
  have dup_frame: "cell h'' p = Some b"
    if "at_address h' (Some q) f = Done (r, h'')" for f r h''
    using at_address_frame [OF that, of p] ne old by simp
  have orig_frame: "cell h'' q = Some d"
    if "at_address h' (Some p) f = Done (r, h'')" for f r h''
    using at_address_frame [OF that, of q] ne new by simp
  have "len d = len b" by (simp add: d_def)
  moreover have "content d = takeWhile (\<lambda>c. c \<noteq> 0) (content b)
      @ replicate (unat (len b) - length (takeWhile (\<lambda>c. c \<noteq> 0) (content b))) 0"
    using c by (simp add: img_def tw_def)
  ultimately show ?thesis
    using ne old new v same dup_frame orig_frame by blast
qed

lemma string_empty_valid:
  assumes "string_empty A h = (h', Some p)"
  shows "\<exists>b. cell h' p = Some b \<and> valid b \<and> len b = 0 \<and> capacity b = 1"
  using string_empty_Some [OF assms]
  by (simp add: cell_append_new valid_def)

lemma sub_string_valid:
  assumes "sub_string A h src start n = Done (h', Some p)"
  shows "\<exists>b. cell h' p = Some b \<and> valid b \<and> len b = n"
  using assms
proof (rule sub_string_Done)
  fix img
  assume img: "strncpy_image (drop (unat start) src) (unat n) = Done img"
    and p: "p = length h"
    and h': "h' = h @ [Some \<lparr>len = n, capacity = n + 1, chars = img @ [0]\<rparr>]"
    and u: "unat (n + 1) = unat n + 1" "16 + (unat n + 1) < 2 ^ 64"
  from img have "length img = unat n" by (rule strncpy_image_length)
  with u have "valid \<lparr>len = n, capacity = n + 1, chars = img @ [0]\<rparr>"
    by (simp add: valid_def nth_append)
  with p h' show ?thesis
    by (simp add: cell_append_new)
qed

lemma creation_valid:
  "string_dup_v A h (Some cs) n = Done (h', Some p)
     \<Longrightarrow> \<exists>b. cell h' p = Some b \<and> valid b \<and> len b = n"
  "string_sub_v A h (Some cs) start n = Done (h', Some p)
     \<Longrightarrow> \<exists>b. cell h' p = Some b \<and> valid b \<and> len b = n"
  "cell h q = Some s \<Longrightarrow> string_dup A h (Some q) = Done (h', Some p)
     \<Longrightarrow> \<exists>b. cell h' p = Some b \<and> valid b \<and> len b = len s"
  by (auto simp: string_dup_v_def string_sub_v_def string_dup_def dest: sub_string_valid)

lemma string_empty_part_000_Some:
  assumes "string_empty_part_000 A h = (h', Some p)"
  shows "p = length h \<and> h' = h @ [Some \<lparr>len = 0, capacity = 1, chars = [0]\<rparr>]"
  using assms
  by (auto simp: string_empty_part_000_def create_string_def place_def
      split: option.splits if_splits)

lemma sub_string_part_000_Done:
  assumes "sub_string_part_000 A h src start n = Done (h', Some p)"
  obtains img where "strncpy_image (drop (unat start) src) (unat n) = Done img"
    "p = length h" "h' = h @ [Some \<lparr>len = n, capacity = n + 1, chars = img @ [0]\<rparr>]"
    "unat (n + 1) = unat n + 1"
proof -
  let ?z = "replicate (unat (n + 1)) (0 :: byte)"
  from assms obtain cs where cs: "strncpy ?z 0 src (unat start) (unat n) = Done cs"
    and res: "(h', Some p) = place h \<lparr>len = n, capacity = n + 1, chars = cs\<rparr>"
    by (auto simp: sub_string_part_000_def create_string_def and_then_Done_iff
        split: option.splits if_splits)
  from cs obtain img where img: "strncpy_image (drop (unat start) src) (unat n) = Done img"
    "length img = unat n" and fits: "unat n \<le> unat (n + 1)"
    and cs': "cs = img @ drop (unat n) ?z"
    by (auto elim!: strncpy_Done)
  have "unat (n + 1) \<le> unat n + 1"
    by (simp add: unat_word_ariths)
  moreover have "unat (n + 1) \<noteq> unat n"
    by (metis add_cancel_right_right unsigned_word_eqI zero_neq_one)
  ultimately have u: "unat (n + 1) = unat n + 1"
    using fits by simp
  have "drop (unat n) ?z = replicate (unat (n + 1) - unat n) 0"
    by (rule drop_replicate)
  with cs' u have "cs = img @ [0]"
    by simp
  with res img(1) u show ?thesis
    by (intro that [of img]) (simp_all add: place_def)
qed

subsection \<open>The invariant under the mutating functions\<close>

lemma mutation_valid:
  assumes "valid s"
  shows "string_copy_v A (Some s) src n = Done (0, x) \<Longrightarrow> \<exists>s'. x = Some s' \<and> valid s'"
    "string_append_v A (Some s) src n = Done (0, x) \<Longrightarrow> \<exists>s'. x = Some s' \<and> valid s'"
    "string_prepend_v A (Some s) src n = Done (0, x) \<Longrightarrow> \<exists>s'. x = Some s' \<and> valid s'"
    "string_cut (Some s) start n = Done (0, x) \<Longrightarrow> \<exists>s'. x = Some s' \<and> valid s'"
    "string_clear (Some s) = Done (0, x) \<Longrightarrow> \<exists>s'. x = Some s' \<and> valid s'"
    "string_reserve A (Some s) sz = Done (0, x) \<Longrightarrow> \<exists>s'. x = Some s' \<and> valid s'"
    "string_fit A (Some s) = Done (0, x) \<Longrightarrow> \<exists>s'. x = Some s' \<and> valid s'"
    "length out \<le> INT_MAX \<Longrightarrow> string_printf (Some s) (Some out) = Done (r, x)
       \<Longrightarrow> \<exists>s'. x = Some s' \<and> valid s'"
proof -
  note sz = valid_sized [OF assms]
  show "string_copy_v A (Some s) src n = Done (0, x) \<Longrightarrow> \<exists>s'. x = Some s' \<and> valid s'"
    by (erule copy_v_Done) (auto simp: EINVAL_def dest: copy_string_valid [OF sz])
  show "string_append_v A (Some s) src n = Done (0, x) \<Longrightarrow> \<exists>s'. x = Some s' \<and> valid s'"
    by (erule append_v_Done) (auto simp: EINVAL_def dest: append_string_valid [OF sz])
  show "string_prepend_v A (Some s) src n = Done (0, x) \<Longrightarrow> \<exists>s'. x = Some s' \<and> valid s'"
    by (erule prepend_v_Done) (auto simp: EINVAL_def dest: prepend_string_valid [OF sz])
  show "string_cut (Some s) start n = Done (0, x) \<Longrightarrow> \<exists>s'. x = Some s' \<and> valid s'"
    using string_cut_valid [OF assms] by blast
  show "string_clear (Some s) = Done (0, x) \<Longrightarrow> \<exists>s'. x = Some s' \<and> valid s'"
    using string_clear_valid [OF assms] by blast
  show "string_reserve A (Some s) sz = Done (0, x) \<Longrightarrow> \<exists>s'. x = Some s' \<and> valid s'"
    using string_reserve_valid [OF assms] by blast
  show "string_fit A (Some s) = Done (0, x) \<Longrightarrow> \<exists>s'. x = Some s' \<and> valid s'"
    using string_fit_Done [OF assms] by blast
  show "length out \<le> INT_MAX \<Longrightarrow> string_printf (Some s) (Some out) = Done (r, x)
       \<Longrightarrow> \<exists>s'. x = Some s' \<and> valid s'"
    using string_printf_valid [OF assms] by blast
qed

subsection \<open>Failure of \<open>realloc\<close>\<close>

text \<open>
  When one of the functions returns \<open>-ENOMEM\<close>, the string is the one the function was
  called on, but for the request of 0 bytes that \<open>string_reserve\<close> can make.
\<close>

lemma out_of_memory_keeps_string:
  "string_copy_v A (Some s) src n = Done (- ENOMEM, r) \<Longrightarrow> r = Some s"
  "string_append_v A (Some s) src n = Done (- ENOMEM, r) \<Longrightarrow> r = Some s"
  "string_prepend_v A (Some s) src n = Done (- ENOMEM, r) \<Longrightarrow> r = Some s"
  "string_reserve A (Some s) sz = Done (- ENOMEM, r) \<Longrightarrow> sizeof_meta + sz \<noteq> 0 \<Longrightarrow> r = Some s"
  "valid s \<Longrightarrow> string_fit A (Some s) = Done (- ENOMEM, r) \<Longrightarrow> r = Some s"
proof -
  show "string_copy_v A (Some s) src n = Done (- ENOMEM, r) \<Longrightarrow> r = Some s"
    by (erule copy_v_Done) (auto simp: ENOMEM_def dest: copy_string_failed)
  show "string_append_v A (Some s) src n = Done (- ENOMEM, r) \<Longrightarrow> r = Some s"
    by (erule append_v_Done) (auto simp: ENOMEM_def dest: append_string_failed)
  show "string_prepend_v A (Some s) src n = Done (- ENOMEM, r) \<Longrightarrow> r = Some s"
    by (erule prepend_v_Done) (auto simp: ENOMEM_def dest: prepend_string_failed)
  show "string_reserve A (Some s) sz = Done (- ENOMEM, r) \<Longrightarrow> sizeof_meta + sz \<noteq> 0
      \<Longrightarrow> r = Some s"
    by (erule string_reserve_Done) (simp_all add: ENOMEM_def)
  show "valid s \<Longrightarrow> string_fit A (Some s) = Done (- ENOMEM, r) \<Longrightarrow> r = Some s"
    using string_fit_failed [of s A "- ENOMEM" r] by (simp add: ENOMEM_def)
qed

subsection \<open>Evaluation on examples\<close>

lemmas run_defs =
  string_copy_v_def string_append_v_def string_prepend_v_def string_cut_def string_clear_def
  string_reserve_def string_fit_def string_printf_def vsnprintf_def deref_def
  copy_string_def append_string_def prepend_string_def set_string_length_def
  set_string_capacity_def sizeof_meta_def realloc_chars_def strncpy_def strncpy_image_def
  memmove_def write_char_def generous_def exhausted_def

lemmas example_defs = str_empty_def str_a_def str_hello_def str_a_roomy_def

section \<open>Claims\<close>

subsection \<open>The invariant after \<open>string_empty\<close>\<close>

text \<open>
  C1. Every successful public operation is to leave \<open>bytes[length] = 0\<close> and
  \<open>capacity \<ge> length + 1\<close>, and \<open>string_empty\<close> is to return a string of length 0 and
  capacity 1. The \<open>string_empty\<close> of \<open>src/libstrings.c\<close> allocates one byte for the
  characters and records a capacity of 0: the string it returns has length 0 and
  capacity 0, so \<open>capacity \<ge> length + 1\<close> does not hold of it. The later versions of the
  function record 1 (\<open>string_empty_Some\<close>, \<open>string_empty_part_000_Some\<close>), and there the
  invariant holds after every successful operation on a valid string
  (\<open>string_empty_valid\<close>, \<open>creation_valid\<close>, \<open>mutation_valid\<close>).
\<close>

theorem string_empty_libstrings_c_capacity:
  "string_empty_libstrings_c generous []
     = ([Some \<lparr>len = 0, capacity = 0, chars = [0]\<rparr>], Some 0) \<and>
   \<not> unat (len \<lparr>len = 0, capacity = 0, chars = [0 :: byte]\<rparr>) + 1
       \<le> unat (capacity \<lparr>len = 0, capacity = 0, chars = [0 :: byte]\<rparr>) \<and>
   capacity \<lparr>len = 0, capacity = 0, chars = [0 :: byte]\<rparr> \<noteq> 1"
  by (simp add: string_empty_libstrings_c_def place_def malloc_chars_def generous_def
      sizeof_meta_def)

subsection \<open>The growth formula\<close>




subsection \<open>The range check of \<open>string_cut\<close>\<close>

text \<open>
  C3. \<open>string_cut\<close> is to fail with \<open>-ERANGE\<close>, leaving the string as it is, whenever
  \<open>start + len\<close> exceeds the length, with a sum that cannot wrap. The code compares the
  length with \<open>start + len\<close> computed in \<open>size_t\<close> and does not guard the sum: on the
  string \<open>"hello"\<close> with \<open>start = 3\<close> and \<open>len = 2^64 - 2\<close> the sum is 1, the check passes,
  and \<open>memmove\<close> is asked for \<open>2^64 - 2\<close> bytes from offset 3 of a block of 6.
\<close>

theorem string_cut_sum_wraps:
  "unat (len str_hello) < unat (3 :: uint) + unat (18446744073709551614 :: size_t) \<and>
   ucast (3 :: uint) + (18446744073709551614 :: size_t) = 1 \<and>
   string_cut (Some str_hello) 3 18446744073709551614 = Undefined"
  by (simp add: string_cut_def memmove_def str_hello_def)

subsection \<open>\<open>string_printf\<close>\<close>

text \<open>
  C4. On a valid string, when the format and its arguments expand to \<open>out\<close> (of at most
  \<open>INT_MAX\<close> bytes, the largest count \<open>vsnprintf\<close> reports), \<open>string_printf\<close> returns
  the length of \<open>out\<close> whether or not it fits. If that length is below the capacity, the
  content becomes \<open>out\<close> and the length its length; otherwise the content becomes the
  first \<open>capacity - 1\<close> bytes of \<open>out\<close> and the length \<open>capacity - 1\<close>. In both cases
  the terminator follows the content, and the capacity and the storage size are as before.
\<close>

theorem string_printf_count:
  assumes "valid s" "length out \<le> INT_MAX"
  shows "\<exists>s'. string_printf (Some s) (Some out) = Done (int (length out), Some s') \<and>
     capacity s' = capacity s \<and> length (chars s') = length (chars s) \<and>
     (length out < unat (capacity s) \<longrightarrow>
        unat (len s') = length out \<and> content s' = out \<and> chars s' ! length out = 0) \<and>
     (unat (capacity s) \<le> length out \<longrightarrow>
        unat (len s') = unat (capacity s) - 1 \<and>
        content s' = take (unat (capacity s) - 1) out \<and>
        chars s' ! (unat (capacity s) - 1) = 0)"
proof -
  let ?k = "min (length out) (unat (capacity s) - 1)"
  let ?cs = "take ?k out @ [0] @ drop (?k + 1) (chars s)"
  let ?s' = "s\<lparr>len := (if length out < unat (capacity s) then word_of_int (int (length out))
                         else capacity s - 1), chars := ?cs\<rparr>"
  have run: "string_printf (Some s) (Some out) = Done (int (length out), Some ?s')"
    by (rule string_printf_Done [OF assms])
  from string_printf_valid [OF assms run]
  have v: "valid ?s'" and l: "unat (len ?s') = ?k" by simp_all
  from assms(1) have pos: "0 < unat (capacity s)" by (simp add: valid_def)
  from v assms(1) have size: "length (chars ?s') = length (chars s)"
    by (simp add: valid_def)
  have k: "?k \<le> length out" by simp
  have c: "content ?s' = take ?k out"
    unfolding content_def l using k by simp
  from v l have z: "chars ?s' ! ?k = 0" by (simp add: valid_def)
  have fit: "?k = length out" if "length out < unat (capacity s)"
    using that by arith
  have cut: "?k = unat (capacity s) - 1" if "unat (capacity s) \<le> length out"
    using that pos by arith
  have "capacity ?s' = capacity s" by simp
  moreover have "length out < unat (capacity s) \<longrightarrow>
        unat (len ?s') = length out \<and> content ?s' = out \<and> chars ?s' ! length out = 0"
    using l c z fit by auto
  moreover have "unat (capacity s) \<le> length out \<longrightarrow>
        unat (len ?s') = unat (capacity s) - 1 \<and>
        content ?s' = take (unat (capacity s) - 1) out \<and>
        chars ?s' ! (unat (capacity s) - 1) = 0"
    using l c z cut by auto
  ultimately show ?thesis
    using run size by blast
qed

theorem string_printf_count_witness:
  "valid str_a_roomy \<and> length [65, 66 :: byte] \<le> INT_MAX \<and>
   length [65, 66, 67, 68, 69 :: byte] \<le> INT_MAX \<and>
   length [65, 66 :: byte] < unat (capacity str_a_roomy) \<and>
   unat (capacity str_a_roomy) \<le> length [65, 66, 67, 68, 69 :: byte] \<and>
   string_printf (Some str_a_roomy) (Some [65, 66])
     = Done (2, Some \<lparr>len = 2, capacity = 4, chars = [65, 66, 0, 0]\<rparr>) \<and>
   string_printf (Some str_a_roomy) (Some [65, 66, 67, 68, 69])
     = Done (5, Some \<lparr>len = 3, capacity = 4, chars = [65, 66, 67, 0]\<rparr>)"
proof -
  have v: "valid str_a_roomy"
    by (simp add: valid_def str_a_roomy_def)
  have short: "length [65, 66 :: byte] \<le> INT_MAX"
    and long: "length [65, 66, 67, 68, 69 :: byte] \<le> INT_MAX"
    by (simp_all add: INT_MAX_def)
  have calls:
    "string_printf (Some str_a_roomy) (Some [65, 66])
       = Done (2, Some \<lparr>len = 2, capacity = 4, chars = [65, 66, 0, 0]\<rparr>)"
    "string_printf (Some str_a_roomy) (Some [65, 66, 67, 68, 69])
       = Done (5, Some \<lparr>len = 3, capacity = 4, chars = [65, 66, 67, 0]\<rparr>)"
    by (simp_all add: run_defs example_defs INT_MAX_def)
  show ?thesis
    using string_printf_count [OF v short] string_printf_count [OF v long] v short long calls
    by (simp add: str_a_roomy_def)
qed

subsection \<open>Failure of the allocator\<close>

text \<open>
  C5. A mutating function that returns \<open>-ENOMEM\<close> is to leave the string as it was.
  \<open>string_reserve\<close> with a size of \<open>2^64 - 16\<close> makes \<open>sizeof(*meta) + capacity\<close> wrap to
  0: \<open>realloc(meta, 0)\<close> frees the block and returns \<open>NULL\<close>, and the function returns
  \<open>-ENOMEM\<close> with the string destroyed, whether or not the allocator has memory. (On
  every other path the string is kept: \<open>out_of_memory_keeps_string\<close>.)
\<close>

theorem string_reserve_destroys_string:
  "valid str_a \<and>
   sizeof_meta + (18446744073709551600 :: size_t) = 0 \<and>
   string_reserve generous (Some str_a) 18446744073709551600 = Done (- ENOMEM, None) \<and>
   string_reserve exhausted (Some str_a) 18446744073709551600 = Done (- ENOMEM, None)"
  by (simp add: valid_def str_a_def string_reserve_def set_string_capacity_def sizeof_meta_def)

subsection \<open>Prepending and cutting back\<close>

text \<open>
  C6, as amended. Let a valid string have content \<open>C\<close> of length \<open>L\<close>, and let
  \<open>string_prepend_v\<close> succeed on it with \<open>n\<close> bytes, where \<open>n\<close> is below \<open>2^32\<close>, so
  that it is passed unchanged as the \<open>unsigned int start\<close> of \<open>string_cut\<close>. Then the
  bytes of \<open>C\<close> stand intact at offset \<open>n\<close> after the shift, whether or not the two
  ranges overlap; and \<open>string_cut\<close> with \<open>start = n\<close> and \<open>len = L\<close> succeeds and leaves the
  content \<open>C\<close> and the length \<open>L\<close>.
\<close>

theorem prepend_then_cut:
  assumes "valid s" "unat n < 2 ^ 32"
    "string_prepend_v A (Some s) (Some X) n = Done (0, Some s1)"
  shows "take (unat (len s)) (drop (unat n) (chars s1)) = content s \<and>
    (\<exists>s2. string_cut (Some s1) (ucast n) (len s) = Done (0, Some s2) \<and>
       content s2 = content s \<and> len s2 = len s)"
proof -
  let ?L = "unat (len s)"
  from assms(3) have "prepend_string A s X n = Done (0, Some s1)"
    by (simp add: string_prepend_v_def)
  from assms(1) this obtain img rest where img: "length img = unat n"
    and cs: "chars s1 = img @ content s @ 0 # rest"
    and l: "len s1 = len s + n" "unat (len s + n) = ?L + unat n" and v: "valid s1"
    by (rule prepend_string_shape)
  from assms(1) have cl: "length (content s) = ?L" by (simp add: content_def valid_def)
  from cs img cl have shifted: "take ?L (drop (unat n) (chars s1)) = content s"
    by simp
  have start: "unat (ucast n :: uint) = unat n"
    using assms(2) by (rule ucast_size_t_uint)
  from l start have "unat (ucast n :: uint) + ?L \<le> unat (len s1)" by simp
  moreover from v have "unat (len s1) < length (chars s1)" by (simp add: valid_def)
  ultimately have cut: "string_cut (Some s1) (ucast n) (len s)
     = Done (0, Some (s1\<lparr>len := len s,
          chars := (take ?L (drop (unat (ucast n :: uint)) (chars s1))
                    @ drop ?L (chars s1))[?L := 0]\<rparr>))"
    by (rule string_cut_in_range)
  have "content (s1\<lparr>len := len s,
          chars := (take ?L (drop (unat (ucast n :: uint)) (chars s1))
                    @ drop ?L (chars s1))[?L := 0]\<rparr>) = content s"
    using shifted start cl by (simp add: content_def)
  with cut shifted show ?thesis by simp
qed

theorem prepend_then_cut_witness:
  "valid str_hello \<and> unat (2 :: size_t) < 2 ^ 32 \<and>
   string_prepend_v generous (Some str_hello) (Some [104, 105]) 2
     = Done (0, Some \<lparr>len = 7, capacity = 15, chars = [104, 105, 104, 101, 108, 108, 111, 0,
          170, 170, 170, 170, 170, 170, 170]\<rparr>) \<and>
   string_cut (Some \<lparr>len = 7, capacity = 15, chars = [104, 105, 104, 101, 108, 108, 111, 0,
          170, 170, 170, 170, 170, 170, 170]\<rparr>) (ucast (2 :: size_t)) (len str_hello)
     = Done (0, Some \<lparr>len = 5, capacity = 15, chars = [104, 101, 108, 108, 111, 0, 111, 0,
          170, 170, 170, 170, 170, 170, 170]\<rparr>) \<and>
   content \<lparr>len = 5, capacity = 15, chars = [104, 101, 108, 108, 111, 0, 111, 0,
          170, 170, 170, 170, 170, 170, 170]\<rparr> = content str_hello"
proof -
  have v: "valid str_hello"
    by (simp add: valid_def str_hello_def)
  have small: "unat (2 :: size_t) < 2 ^ 32"
    by simp
  have p: "string_prepend_v generous (Some str_hello) (Some [104, 105]) 2
     = Done (0, Some \<lparr>len = 7, capacity = 15, chars = [104, 105, 104, 101, 108, 108, 111, 0,
          170, 170, 170, 170, 170, 170, 170]\<rparr>)"
    by (simp add: run_defs str_hello_def upt_rec)
  have c: "string_cut (Some \<lparr>len = 7, capacity = 15, chars = [104, 105, 104, 101, 108, 108,
          111, 0, 170, 170, 170, 170, 170, 170, 170]\<rparr>) (ucast (2 :: size_t)) (len str_hello)
     = Done (0, Some \<lparr>len = 5, capacity = 15, chars = [104, 101, 108, 108, 111, 0, 111, 0,
          170, 170, 170, 170, 170, 170, 170]\<rparr>)"
    by (simp add: run_defs str_hello_def)
  show ?thesis
    using prepend_then_cut [OF v small p] v small p c
    by (simp add: content_def str_hello_def)
qed

text \<open>
  With \<open>n = 2^32\<close> the argument \<open>start\<close> of \<open>string_cut\<close> receives 0: after prepending
  \<open>2^32\<close> bytes \<open>x\<close> to the string \<open>"a"\<close>, cutting with \<open>start = n\<close> and \<open>len = 1\<close> succeeds
  and leaves the content \<open>"x"\<close>.
\<close>

theorem prepend_then_cut_counterexample:
  "valid str_a \<and> content str_a = [97] \<and>
   length (replicate 4294967296 (120 :: byte)) = unat (4294967296 :: size_t) \<and>
   return_value (string_prepend_v generous (Some str_a)
      (Some (replicate 4294967296 120)) 4294967296) = Some 0 \<and>
   return_value (string_cut (string_after (string_prepend_v generous (Some str_a)
      (Some (replicate 4294967296 120)) 4294967296))
      (ucast (4294967296 :: size_t)) (len str_a)) = Some 0 \<and>
   map_option content (string_after (string_cut (string_after (string_prepend_v generous
      (Some str_a) (Some (replicate 4294967296 120)) 4294967296))
      (ucast (4294967296 :: size_t)) (len str_a))) = Some [120] \<and>
   map_option content (string_after (string_cut (string_after (string_prepend_v generous
      (Some str_a) (Some (replicate 4294967296 120)) 4294967296))
      (ucast (4294967296 :: size_t)) (len str_a))) \<noteq> Some (content str_a)"
proof -
  let ?N = "4294967296 :: size_t"
  let ?X = "replicate 4294967296 (120 :: byte)"
  have v: "valid str_a" and c: "content str_a = [97]" and l: "len str_a = 1"
    by (simp_all add: valid_def content_def str_a_def)
  have n: "unat ?N = 4294967296"
    by simp
  have "strncpy_image ?X 4294967296 = Done (take 4294967296 ?X)"
    by (rule strncpy_image_no_nul) simp_all
  then have img: "strncpy_image ?X (unat ?N) = Done ?X"
    by (simp add: n)
  have "\<exists>s1. prepend_string generous str_a ?X ?N = Done (0, Some s1)"
    using v img by (rule prepend_string_succeeds) (simp_all add: l generous_def)
  then obtain s1 where p: "prepend_string generous str_a ?X ?N = Done (0, Some s1)" ..
  from v p obtain img' rest where "strncpy_image ?X (unat ?N) = Done img'"
    and cs: "chars s1 = img' @ content str_a @ 0 # rest"
    and l1: "len s1 = len str_a + ?N" and v1: "valid s1"
    by (rule prepend_string_shape)
  with img c have cs1: "chars s1 = ?X @ 97 # 0 # rest"
    by simp
  define s2 where "s2 = s1\<lparr>len := 1,
      chars := (take (unat (1 :: size_t)) (drop (unat (0 :: uint)) (chars s1))
                @ drop (unat (1 :: size_t)) (chars s1))[unat (1 :: size_t) := 0]\<rparr>"
  have start: "(ucast ?N :: uint) = 0"
    by simp
  from l1 l have "unat (0 :: uint) + unat (1 :: size_t) \<le> unat (len s1)"
    by simp
  moreover from v1 have "unat (len s1) < length (chars s1)"
    by (simp add: valid_def)
  ultimately have "string_cut (Some s1) 0 1 = Done (0, Some s2)"
    unfolding s2_def by (rule string_cut_in_range)
  then have cut: "string_cut (Some s1) (ucast ?N) (len str_a) = Done (0, Some s2)"
    unfolding start l .
  have "take 1 (chars s1) = [120]"
    unfolding cs1 by (simp add: take_Suc_conv_app_nth)
  then have c2: "content s2 = [120]"
    by (simp add: content_def s2_def)
  from p have pv: "string_prepend_v generous (Some str_a) (Some ?X) ?N = Done (0, Some s1)"
    by (simp add: string_prepend_v_def)
  show ?thesis
    unfolding pv string_after_def return_value_def outcome.case prod.case cut
    using v c c2 by simp
qed

subsection \<open>\<open>string_fit\<close>\<close>

text \<open>
  C7. After a successful \<open>string_fit\<close> on a valid string the capacity is the length plus
  one (in \<open>size_t\<close> and as numbers), the length and the content are unchanged, and the
  terminator is in place.
\<close>

theorem string_fit_capacity:
  assumes "valid s" "string_fit A (Some s) = Done (0, Some s')"
  shows "capacity s' = len s' + 1 \<and> unat (capacity s') = unat (len s') + 1 \<and>
         len s' = len s \<and> content s' = content s \<and> chars s' ! unat (len s') = 0"
  using string_fit_Done [OF assms] by (auto simp: valid_def)

theorem string_fit_capacity_witness:
  "valid str_a_roomy \<and> string_fit generous (Some str_a_roomy) = Done (0, Some str_a) \<and>
   capacity str_a = len str_a + 1 \<and> len str_a = len str_a_roomy \<and>
   content str_a = content str_a_roomy"
proof -
  have v: "valid str_a_roomy"
    by (simp add: valid_def str_a_roomy_def)
  have f: "string_fit generous (Some str_a_roomy) = Done (0, Some str_a)"
    by (simp add: run_defs example_defs)
  show ?thesis
    using string_fit_capacity [OF v f] v f by simp
qed

subsection \<open>\<open>string_dup\<close>\<close>

text \<open>
  C8. The duplicate of a valid string is to have its length and, byte for byte, its
  content, in storage of its own; the header promises ``a string identical to the given
  one''. \<open>sub_string\<close> copies with \<open>strncpy\<close>, which stops at the first NUL byte and fills
  the rest with NUL bytes. Copying the two bytes \<open>'a', 0\<close> into the empty string and
  appending \<open>'b'\<close> gives a valid string of length 3 and content \<open>'a', 0, 'b'\<close>; its
  duplicate has length 3 and content \<open>'a', 0, 0\<close>. (Length and storage are as claimed,
  and so is the content of a string without a NUL byte: \<open>string_dup_copy\<close>.)
\<close>

theorem string_dup_stops_at_nul:
  "string_copy_v generous (Some str_empty) (Some [97, 0]) 2
     = Done (0, Some \<lparr>len = 2, capacity = 5, chars = [97, 0, 0, 170, 170]\<rparr>) \<and>
   string_append_v generous (Some \<lparr>len = 2, capacity = 5, chars = [97, 0, 0, 170, 170]\<rparr>)
       (Some [98]) 1
     = Done (0, Some str_a_nul_b) \<and>
   valid str_a_nul_b \<and>
   string_dup generous [Some str_a_nul_b] (Some 0)
     = Done ([Some str_a_nul_b, Some \<lparr>len = 3, capacity = 4, chars = [97, 0, 0, 0]\<rparr>], Some 1) \<and>
   content str_a_nul_b = [97, 0, 98] \<and>
   content \<lparr>len = 3, capacity = 4, chars = [97, 0, 0, 0]\<rparr> = [97, 0, 0] \<and>
   content \<lparr>len = 3, capacity = 4, chars = [97, 0, 0, 0]\<rparr> \<noteq> content str_a_nul_b"
proof -
  have made:
    "string_copy_v generous (Some str_empty) (Some [97, 0]) 2
       = Done (0, Some \<lparr>len = 2, capacity = 5, chars = [97, 0, 0, 170, 170]\<rparr>)"
    "string_append_v generous (Some \<lparr>len = 2, capacity = 5, chars = [97, 0, 0, 170, 170]\<rparr>)
         (Some [98]) 1
       = Done (0, Some str_a_nul_b)"
    by (simp_all add: run_defs example_defs str_a_nul_b_def upt_rec)
  have dup: "string_dup generous [Some str_a_nul_b] (Some 0)
     = Done ([Some str_a_nul_b, Some \<lparr>len = 3, capacity = 4, chars = [97, 0, 0, 0]\<rparr>], Some 1)"
    by (simp add: str_a_nul_b_def string_dup_def sub_string_def cell_def place_def
        malloc_chars_def run_defs upt_rec replicate_numeral)
  have "valid str_a_nul_b" "content str_a_nul_b = [97, 0, 98]"
    "content \<lparr>len = 3, capacity = 4, chars = [97, 0, 0, 0]\<rparr> = [97, 0, 0]"
    "content \<lparr>len = 3, capacity = 4, chars = [97, 0, 0, 0]\<rparr> \<noteq> content str_a_nul_b"
    by (simp_all add: valid_def content_def str_a_nul_b_def)
  with made dup show ?thesis by simp
qed

subsection \<open>Capacity under the mutating functions\<close>

text \<open>
  C9. On a valid string, a successful \<open>string_copy_v\<close>, \<open>string_append_v\<close>,
  \<open>string_prepend_v\<close>, \<open>string_cut\<close>, \<open>string_clear\<close> or \<open>string_reserve\<close> never
  reduces the capacity; and a successful \<open>string_copy_v\<close> of \<open>n\<close> bytes with
  \<open>n + 1 \<le> capacity\<close> leaves the capacity as it is.
\<close>

theorem capacity_never_reduced:
  assumes "valid s"
  shows
   "(string_copy_v A (Some s) src n = Done (0, Some s1) \<longrightarrow> capacity s \<le> capacity s1) \<and>
    (string_append_v A (Some s) src n = Done (0, Some s2) \<longrightarrow> capacity s \<le> capacity s2) \<and>
    (string_prepend_v A (Some s) src n = Done (0, Some s3) \<longrightarrow> capacity s \<le> capacity s3) \<and>
    (string_cut (Some s) start n = Done (0, Some s4) \<longrightarrow> capacity s \<le> capacity s4) \<and>
    (string_clear (Some s) = Done (0, Some s5) \<longrightarrow> capacity s \<le> capacity s5) \<and>
    (string_reserve A (Some s) sz = Done (0, Some s6) \<longrightarrow> capacity s \<le> capacity s6) \<and>
    (unat n + 1 \<le> unat (capacity s) \<longrightarrow> string_copy_v A (Some s) src n = Done (0, Some s1)
       \<longrightarrow> capacity s1 = capacity s)"
proof (intro conjI impI)
  note sz = valid_sized [OF assms]
  { assume "string_copy_v A (Some s) src n = Done (0, Some s1)"
    then show "capacity s \<le> capacity s1"
      by (cases rule: copy_v_Done) (auto simp: EINVAL_def dest: copy_string_valid [OF sz]) }
  { assume "string_append_v A (Some s) src n = Done (0, Some s2)"
    then show "capacity s \<le> capacity s2"
      by (cases rule: append_v_Done) (auto simp: EINVAL_def dest: append_string_valid [OF sz]) }
  { assume "string_prepend_v A (Some s) src n = Done (0, Some s3)"
    then show "capacity s \<le> capacity s3"
      by (cases rule: prepend_v_Done) (auto simp: EINVAL_def dest: prepend_string_valid [OF sz]) }
  { assume "string_cut (Some s) start n = Done (0, Some s4)"
    from string_cut_valid [OF assms this] show "capacity s \<le> capacity s4" by simp }
  { assume "string_clear (Some s) = Done (0, Some s5)"
    from string_clear_valid [OF assms this] show "capacity s \<le> capacity s5" by simp }
  { assume "string_reserve A (Some s) sz = Done (0, Some s6)"
    from string_reserve_valid [OF assms this] show "capacity s \<le> capacity s6" by simp }
  { assume fits: "unat n + 1 \<le> unat (capacity s)"
      and "string_copy_v A (Some s) src n = Done (0, Some s1)"
    from this(2) show "capacity s1 = capacity s"
    proof (cases rule: copy_v_Done)
      case null
      then show ?thesis by (simp add: EINVAL_def)
    next
      case (call cs)
      from call(2) show ?thesis
      proof (cases rule: copy_string_Done)
        case fail
        then show ?thesis by (simp add: ENOMEM_def)
      next
        case (ok d img)
        from set_string_length_kept [OF ok(2) fits] ok(5) show ?thesis by simp
      qed
    qed }
qed

theorem capacity_never_reduced_witness:
  "valid str_hello \<and>
   string_copy_v generous (Some str_hello) (Some [104, 105]) 2
     = Done (0, Some \<lparr>len = 2, capacity = 6, chars = [104, 105, 0, 108, 111, 0]\<rparr>) \<and>
   string_append_v generous (Some str_hello) (Some [104, 105]) 2
     = Done (0, Some \<lparr>len = 7, capacity = 15, chars = [104, 101, 108, 108, 111, 104, 105, 0,
          170, 170, 170, 170, 170, 170, 170]\<rparr>) \<and>
   string_prepend_v generous (Some str_hello) (Some [104, 105]) 2
     = Done (0, Some \<lparr>len = 7, capacity = 15, chars = [104, 105, 104, 101, 108, 108, 111, 0,
          170, 170, 170, 170, 170, 170, 170]\<rparr>) \<and>
   string_cut (Some str_hello) 1 2
     = Done (0, Some \<lparr>len = 2, capacity = 6, chars = [101, 108, 0, 108, 111, 0]\<rparr>) \<and>
   string_clear (Some str_hello)
     = Done (0, Some \<lparr>len = 0, capacity = 6, chars = [0, 101, 108, 108, 111, 0]\<rparr>) \<and>
   string_reserve generous (Some str_hello) 10
     = Done (0, Some \<lparr>len = 5, capacity = 10,
          chars = [104, 101, 108, 108, 111, 0, 170, 170, 170, 170]\<rparr>) \<and>
   unat (2 :: size_t) + 1 \<le> unat (capacity str_hello) \<and>
   capacity str_hello \<le> 6 \<and> capacity str_hello \<le> 15 \<and> capacity str_hello \<le> 10"
proof -
  have v: "valid str_hello"
    by (simp add: valid_def str_hello_def)
  have calls:
    "string_copy_v generous (Some str_hello) (Some [104, 105]) 2
       = Done (0, Some \<lparr>len = 2, capacity = 6, chars = [104, 105, 0, 108, 111, 0]\<rparr>)"
    "string_append_v generous (Some str_hello) (Some [104, 105]) 2
       = Done (0, Some \<lparr>len = 7, capacity = 15, chars = [104, 101, 108, 108, 111, 104, 105, 0,
            170, 170, 170, 170, 170, 170, 170]\<rparr>)"
    "string_prepend_v generous (Some str_hello) (Some [104, 105]) 2
       = Done (0, Some \<lparr>len = 7, capacity = 15, chars = [104, 105, 104, 101, 108, 108, 111, 0,
            170, 170, 170, 170, 170, 170, 170]\<rparr>)"
    "string_cut (Some str_hello) 1 2
       = Done (0, Some \<lparr>len = 2, capacity = 6, chars = [101, 108, 0, 108, 111, 0]\<rparr>)"
    "string_clear (Some str_hello)
       = Done (0, Some \<lparr>len = 0, capacity = 6, chars = [0, 101, 108, 108, 111, 0]\<rparr>)"
    "string_reserve generous (Some str_hello) 10
       = Done (0, Some \<lparr>len = 5, capacity = 10,
            chars = [104, 101, 108, 108, 111, 0, 170, 170, 170, 170]\<rparr>)"
    by (simp_all add: run_defs example_defs upt_rec)
  show ?thesis
    using capacity_never_reduced [OF v, where A = generous and src = "Some [104, 105]"
        and n = 2 and start = 1 and sz = 10] v calls
    by (simp add: str_hello_def)
qed

subsection \<open>\<open>string_destroy\<close>\<close>

text \<open>
  C10. \<open>string_destroy(NULL)\<close> returns with the heap as it was: nothing is freed and no
  block is touched.
\<close>

theorem string_destroy_null: "string_destroy h None = Done h"
  by (simp add: string_destroy_def)

end
